theory Spec2Isabelle
  imports Main
begin

section \<open>Data model (database.py)\<close>

text \<open>
  The tables of \<^verbatim>\<open>database.py\<close>, one record per mapped class. A table is the list of its
  rows in the order a query returns them. Primary keys are SQLite rowids, taken as natural
  numbers; \<^verbatim>\<open>datetime\<close> values are points on a discrete clock; a nullable column is an
  \<open>option\<close>. The tri-state \<^verbatim>\<open>is_approved\<close> of the staging tables is a nullable Boolean:
  \<open>None\<close> pending, \<open>Some True\<close> approved, \<open>Some False\<close> rejected. The two association
  tables are held with the question they belong to, as the list of tag ids the ORM loads
  into \<^verbatim>\<open>question.tags\<close>.
\<close>

type_synonym datetime = nat

record run =
  r_id :: string
  r_summary :: string
  r_created_at :: datetime
  r_updated_at :: datetime
  r_last_sync_at :: "datetime option"
  r_last_staging_change_at :: "datetime option"

record question_staging =
  qs_id :: nat
  qs_run_id :: string
  qs_question_text :: string
  qs_is_approved :: "bool option"
  qs_created_at :: datetime
  qs_updated_at :: datetime
  qs_tags :: "nat list"

record answer_staging =
  as_id :: nat
  as_run_id :: string
  as_question_id :: nat
  as_answer_text :: string
  as_is_approved :: "bool option"
  as_created_at :: datetime
  as_updated_at :: datetime

record question =
  q_id :: nat
  q_run_id :: string
  q_staging_id :: "nat option"
  q_question_text :: string
  q_is_approved :: bool
  q_created_at :: datetime
  q_updated_at :: datetime
  q_tags :: "nat list"

record answer =
  a_id :: nat
  a_run_id :: string
  a_question_id :: nat
  a_staging_id :: "nat option"
  a_answer_text :: string
  a_created_at :: datetime
  a_updated_at :: datetime

record tag =
  t_id :: nat
  t_name :: string
  t_created_at :: datetime

record database =
  runs :: "run list"
  question_staging :: "question_staging list"
  answer_staging :: "answer_staging list"
  questions :: "question list"
  answers :: "answer list"
  tags :: "tag list"

text \<open>
  \<^verbatim>\<open>raise HTTPException(status_code=..., detail=...)\<close>. An endpoint returns its outcome
  together with the database as the request leaves it: after \<^verbatim>\<open>db.commit()\<close> the new
  state, after an early \<^verbatim>\<open>raise\<close> or \<^verbatim>\<open>db.rollback()\<close> the state it found.
\<close>

datatype http_error = HTTPException (status_code: nat) (detail: string)

text \<open>
  The generation collaborator (\<^verbatim>\<open>llm_service\<close>, an \<^verbatim>\<open>LLMService\<close> or \<^verbatim>\<open>None\<close>): its two
  calls either raise (\<open>Inl\<close> the message) or return text.
\<close>

record llm_service =
  llm_generate_questions :: "string \<Rightarrow> int \<Rightarrow> string + string list"
  llm_generate_answer :: "string \<Rightarrow> string \<Rightarrow> string + string"

subsection \<open>Keys, truthiness, row access\<close>

text \<open>
  An Integer primary key without the \<^verbatim>\<open>AUTOINCREMENT\<close> keyword is the SQLite rowid: an
  INSERT gets one more than the largest key in the table, 1 in an empty table.
\<close>

definition next_id :: "nat list \<Rightarrow> nat" where
  "next_id ids = Suc (fold max ids 0)"

text \<open>Python truthiness of a nullable integer: \<^verbatim>\<open>if actual_q.staging_id:\<close>.\<close>

fun truthy :: "nat option \<Rightarrow> bool" where
  "truthy None = False"
| "truthy (Some n) = (n \<noteq> 0)"

text \<open>\<^verbatim>\<open>db.query(Run).filter(Run.id == run_id).first()\<close> and its siblings.\<close>

definition get_run :: "string \<Rightarrow> database \<Rightarrow> run option" where
  "get_run run_id db = find (\<lambda>r. r_id r = run_id) (runs db)"

definition get_question_staging :: "nat \<Rightarrow> database \<Rightarrow> question_staging option" where
  "get_question_staging question_id db = find (\<lambda>q. qs_id q = question_id) (question_staging db)"

definition get_answer_staging :: "nat \<Rightarrow> database \<Rightarrow> answer_staging option" where
  "get_answer_staging answer_id db = find (\<lambda>a. as_id a = answer_id) (answer_staging db)"

definition get_question :: "nat \<Rightarrow> question list \<Rightarrow> question option" where
  "get_question k qs = find (\<lambda>q. q_id q = k) qs"

text \<open>
  Assigning to attributes of a loaded object updates the row with that primary key.
\<close>

definition update_run :: "string \<Rightarrow> (run \<Rightarrow> run) \<Rightarrow> run list \<Rightarrow> run list" where
  "update_run k f rs = map (\<lambda>r. if r_id r = k then f r else r) rs"

definition update_question_staging ::
  "nat \<Rightarrow> (question_staging \<Rightarrow> question_staging) \<Rightarrow> question_staging list \<Rightarrow> question_staging list" where
  "update_question_staging k f qs = map (\<lambda>q. if qs_id q = k then f q else q) qs"

definition update_answer_staging ::
  "nat \<Rightarrow> (answer_staging \<Rightarrow> answer_staging) \<Rightarrow> answer_staging list \<Rightarrow> answer_staging list" where
  "update_answer_staging k f xs = map (\<lambda>a. if as_id a = k then f a else a) xs"

definition update_question :: "nat \<Rightarrow> (question \<Rightarrow> question) \<Rightarrow> question list \<Rightarrow> question list" where
  "update_question k f qs = map (\<lambda>q. if q_id q = k then f q else q) qs"

definition update_answer :: "nat \<Rightarrow> (answer \<Rightarrow> answer) \<Rightarrow> answer list \<Rightarrow> answer list" where
  "update_answer k f xs = map (\<lambda>a. if a_id a = k then f a else a) xs"

text \<open>
  The lines every staging mutation that signals a change ends with:
  \<^verbatim>\<open>run.last_staging_change_at = utcnow(); run.updated_at = utcnow()\<close>.
\<close>

definition touch_run :: "datetime \<Rightarrow> string \<Rightarrow> run list \<Rightarrow> run list" where
  "touch_run now run_id rs =
     update_run run_id (\<lambda>r. r\<lparr>r_last_staging_change_at := Some now, r_updated_at := now\<rparr>) rs"

section \<open>Staging mutations (main.py, steps 2 to 6)\<close>

subsection \<open>Step 2: generate questions\<close>

text \<open>
  The new rows get consecutive keys in the order they were added; pending approval.
\<close>

fun new_staging_questions ::
  "datetime \<Rightarrow> string \<Rightarrow> string list \<Rightarrow> question_staging list \<Rightarrow> question_staging list" where
  "new_staging_questions now run_id [] tbl = []"
| "new_staging_questions now run_id (question_text # rest) tbl =
     (let db_question = \<lparr>qs_id = next_id (map qs_id tbl), qs_run_id = run_id,
                          qs_question_text = question_text, qs_is_approved = None,
                          qs_created_at = now, qs_updated_at = now, qs_tags = []\<rparr>
      in db_question # new_staging_questions now run_id rest (tbl @ [db_question]))"

definition generate_questions ::
  "llm_service option \<Rightarrow> datetime \<Rightarrow> string \<Rightarrow> int \<Rightarrow> database
     \<Rightarrow> (http_error + question_staging list) \<times> database" where
  "generate_questions llm now run_id num_questions db =
     (case llm of
        None \<Rightarrow> (Inl (HTTPException 500
                   ''LLM service not initialized. Please check OPENAI_API_KEY.''), db)
      | Some svc \<Rightarrow>
         (case get_run run_id db of
            None \<Rightarrow> (Inl (HTTPException 404 ''Run not found''), db)
          | Some run \<Rightarrow>
             (case llm_generate_questions svc (r_summary run) num_questions of
                Inl e \<Rightarrow> (Inl (HTTPException 500 (''Error generating questions: '' @ e)), db)
              | Inr questions_text \<Rightarrow>
                 (let questions =
                        new_staging_questions now run_id questions_text (question_staging db)
                  in (Inr questions,
                      db\<lparr>question_staging := question_staging db @ questions\<rparr>)))))"

subsection \<open>Step 3: approve or reject a question\<close>

definition update_question_approval ::
  "datetime \<Rightarrow> nat \<Rightarrow> bool \<Rightarrow> database \<Rightarrow> (http_error + question_staging) \<times> database" where
  "update_question_approval now question_id is_approved db =
     (case get_question_staging question_id db of
        None \<Rightarrow> (Inl (HTTPException 404 ''Question not found''), db)
      | Some question \<Rightarrow>
         (let question' = question\<lparr>qs_is_approved := Some is_approved, qs_updated_at := now\<rparr>;
              staged = update_question_staging question_id
                         (\<lambda>q. q\<lparr>qs_is_approved := Some is_approved, qs_updated_at := now\<rparr>)
                         (question_staging db);
              kept = (if is_approved = False
                      then filter (\<lambda>a. as_question_id a \<noteq> question_id) (answer_staging db)
                      else answer_staging db)
          in (Inr question',
              db\<lparr>question_staging := staged, answer_staging := kept,
                 runs := touch_run now (qs_run_id question) (runs db)\<rparr>)))"

subsection \<open>Step 4: generate answers\<close>

text \<open>
  The loop over the approved questions. The session does not autoflush, so the query for
  the existing answers of a question reads the table as the request found it (\<open>tbl\<close>);
  the deletions (\<open>dels\<close>, keys of rows to delete) and the new rows (\<open>news\<close>) are pending
  until the commit. A raise of the collaborator leaves the loop at once.
\<close>

fun generate_answers_loop ::
  "llm_service \<Rightarrow> datetime \<Rightarrow> run \<Rightarrow> answer_staging list \<Rightarrow> question_staging list
     \<Rightarrow> nat list \<times> answer_staging list \<Rightarrow> string + (nat list \<times> answer_staging list)" where
  "generate_answers_loop svc now run tbl [] (dels, news) = Inr (dels, news)"
| "generate_answers_loop svc now run tbl (question # rest) (dels, news) =
     (let existing_answers = filter (\<lambda>a. as_question_id a = qs_id question) tbl;
          has_non_rejected_answer =
            list_ex (\<lambda>ans. as_is_approved ans \<noteq> Some False) existing_answers
      in if has_non_rejected_answer
         then generate_answers_loop svc now run tbl rest (dels, news)
         else (case llm_generate_answer svc (qs_question_text question) (r_summary run) of
                 Inl e \<Rightarrow> Inl e
               | Inr answer_text \<Rightarrow>
                  (let db_answer = \<lparr>as_id = next_id (map as_id (tbl @ news)), as_run_id = r_id run,
                                     as_question_id = qs_id question, as_answer_text = answer_text,
                                     as_is_approved = None,
                                     as_created_at = now, as_updated_at = now\<rparr>
                   in generate_answers_loop svc now run tbl rest
                        (dels @ map as_id existing_answers, news @ [db_answer]))))"

text \<open>
  At the commit the unit of work inserts the new rows first (so they get keys above every
  row still in the table) and then deletes.
\<close>

definition generate_answers ::
  "llm_service option \<Rightarrow> datetime \<Rightarrow> string \<Rightarrow> database
     \<Rightarrow> (http_error + answer_staging list) \<times> database" where
  "generate_answers llm now run_id db =
     (case llm of
        None \<Rightarrow> (Inl (HTTPException 500
                   ''LLM service not initialized. Please check OPENAI_API_KEY.''), db)
      | Some svc \<Rightarrow>
         (case get_run run_id db of
            None \<Rightarrow> (Inl (HTTPException 404 ''Run not found''), db)
          | Some run \<Rightarrow>
             (let approved_questions =
                    filter (\<lambda>q. qs_run_id q = run_id \<and> qs_is_approved q = Some True)
                      (question_staging db)
              in if approved_questions = []
                 then (Inl (HTTPException 400 ''No approved questions found for this run''), db)
                 else (case generate_answers_loop svc now run (answer_staging db)
                              approved_questions ([], []) of
                         Inl e \<Rightarrow> (Inl (HTTPException 500 (''Error generating answers: '' @ e)), db)
                       | Inr (dels, news) \<Rightarrow>
                          (Inr news,
                           db\<lparr>answer_staging :=
                                filter (\<lambda>a. as_id a \<notin> set dels) (answer_staging db) @ news\<rparr>)))))"

subsection \<open>Step 5: approve or reject an answer\<close>

definition update_answer_approval ::
  "datetime \<Rightarrow> nat \<Rightarrow> bool \<Rightarrow> database \<Rightarrow> (http_error + answer_staging) \<times> database" where
  "update_answer_approval now answer_id is_approved db =
     (case get_answer_staging answer_id db of
        None \<Rightarrow> (Inl (HTTPException 404 ''Answer not found''), db)
      | Some answer \<Rightarrow>
         (let answer' = answer\<lparr>as_is_approved := Some is_approved, as_updated_at := now\<rparr>
          in (Inr answer',
              db\<lparr>answer_staging :=
                    update_answer_staging answer_id
                      (\<lambda>a. a\<lparr>as_is_approved := Some is_approved, as_updated_at := now\<rparr>)
                      (answer_staging db),
                 runs := touch_run now (as_run_id answer) (runs db)\<rparr>)))"

subsection \<open>Step 6: tag a question\<close>

text \<open>
  \<^verbatim>\<open>str.strip()\<close>. A \<open>char\<close> stands for a code point below 256; among those
  \<^verbatim>\<open>str.isspace\<close> accepts tab, line feed, vertical tab, form feed, carriage return, the
  four separators 28 to 31, space, next line (133) and no-break space (160). Text with
  code points from 256 on is not represented.
\<close>

definition isspace :: "char \<Rightarrow> bool" where
  "isspace c = ((of_char c :: nat) \<in> {9, 10, 11, 12, 13, 28, 29, 30, 31, 32, 133, 160})"

definition strip :: "string \<Rightarrow> string" where
  "strip s = rev (dropWhile isspace (rev (dropWhile isspace s)))"

text \<open>
  The loop over \<^verbatim>\<open>update.tag_names\<close>: an empty name is skipped, a known name gives its
  tag, an unknown one is inserted (and flushed, so a later query finds it). The result is
  the tag table and \<^verbatim>\<open>tag_objects\<close>, as tag ids.
\<close>

fun resolve_tags :: "datetime \<Rightarrow> string list \<Rightarrow> tag list \<times> nat list \<Rightarrow> tag list \<times> nat list" where
  "resolve_tags now [] (tbl, tag_objects) = (tbl, tag_objects)"
| "resolve_tags now (name # rest) (tbl, tag_objects) =
     (let tag_name = strip name
      in if tag_name = [] then resolve_tags now rest (tbl, tag_objects)
         else (case find (\<lambda>t. t_name t = tag_name) tbl of
                 Some tag \<Rightarrow> resolve_tags now rest (tbl, tag_objects @ [t_id tag])
               | None \<Rightarrow>
                  (let tag = \<lparr>t_id = next_id (map t_id tbl), t_name = tag_name,
                               t_created_at = now\<rparr>
                   in resolve_tags now rest (tbl @ [tag], tag_objects @ [t_id tag]))))"

text \<open>
  \<^verbatim>\<open>question_tags\<close> has the composite primary key (question_id, tag_id): a tag listed
  twice makes the flush raise, and the handler rolls back.
\<close>

definition update_question_tags ::
  "datetime \<Rightarrow> nat \<Rightarrow> string list \<Rightarrow> database \<Rightarrow> (http_error + tag list) \<times> database" where
  "update_question_tags now question_id tag_names db =
     (case get_question_staging question_id db of
        None \<Rightarrow> (Inl (HTTPException 404 ''Question not found''), db)
      | Some question \<Rightarrow>
         (let (tbl, tag_objects) = resolve_tags now tag_names (tags db, [])
          in if \<not> distinct tag_objects
             then (Inl (HTTPException 500
                     (''Error updating question tags: '' @ ''UNIQUE constraint failed'')), db)
             else (Inr (filter (\<lambda>t. t_id t \<in> set tag_objects) tbl),
                   db\<lparr>question_staging :=
                         update_question_staging question_id
                           (\<lambda>q. q\<lparr>qs_tags := tag_objects, qs_updated_at := now\<rparr>)
                           (question_staging db),
                      runs := touch_run now (qs_run_id question) (runs db),
                      tags := tbl\<rparr>)))"

section \<open>Step 7: the sync engine (sync_to_actual)\<close>

subsection \<open>Classification of the staging rows\<close>

definition approved_questions :: "string \<Rightarrow> database \<Rightarrow> question_staging list" where
  "approved_questions run_id db =
     filter (\<lambda>q. qs_run_id q = run_id \<and> qs_is_approved q = Some True) (question_staging db)"

definition approved_answers :: "string \<Rightarrow> database \<Rightarrow> answer_staging list" where
  "approved_answers run_id db =
     filter (\<lambda>a. as_run_id a = run_id \<and> as_is_approved a = Some True) (answer_staging db)"

definition approved_staging_question_ids :: "string \<Rightarrow> database \<Rightarrow> nat set" where
  "approved_staging_question_ids run_id db = set (map qs_id (approved_questions run_id db))"

definition approved_staging_answer_ids :: "string \<Rightarrow> database \<Rightarrow> nat set" where
  "approved_staging_answer_ids run_id db = set (map as_id (approved_answers run_id db))"

definition approved_questions_with_answers :: "string \<Rightarrow> database \<Rightarrow> nat set" where
  "approved_questions_with_answers run_id db =
     fold (\<lambda>staging_a acc.
             if as_question_id staging_a \<in> approved_staging_question_ids run_id db
             then insert (as_question_id staging_a) acc else acc)
       (approved_answers run_id db) {}"

text \<open>
  The dictionary \<^verbatim>\<open>staging_to_actual_question\<close> holds ORM objects; here it holds their
  primary keys, and \<open>deref\<close> reads the object's row in the table as it stands.
\<close>

definition staging_to_actual_question :: "string \<Rightarrow> question list \<Rightarrow> (nat \<rightharpoonup> nat)" where
  "staging_to_actual_question run_id qs =
     fold (\<lambda>aq m. case q_staging_id aq of Some s \<Rightarrow> m(s \<mapsto> q_id aq) | None \<Rightarrow> m)
       (filter (\<lambda>q. q_run_id q = run_id \<and> q_staging_id q \<noteq> None) qs) Map.empty"

definition deref :: "(nat \<rightharpoonup> nat) \<Rightarrow> question list \<Rightarrow> nat \<Rightarrow> question option" where
  "deref m qs s = (case m s of None \<Rightarrow> None | Some k \<Rightarrow> get_question k qs)"

subsection \<open>The four loops\<close>

text \<open>
  Lines 378 to 419: one approved staging question. The state is the \<^verbatim>\<open>questions\<close> table,
  the dictionary and \<^verbatim>\<open>questions_synced\<close>. A new row is flushed at once and gets its key.
\<close>

definition upsert_question ::
  "datetime \<Rightarrow> string \<Rightarrow> nat set \<Rightarrow> question_staging
     \<Rightarrow> question list \<times> (nat \<rightharpoonup> nat) \<times> nat \<Rightarrow> question list \<times> (nat \<rightharpoonup> nat) \<times> nat" where
  "upsert_question now run_id with_answers staging_q st =
     (case st of (qs, m, questions_synced) \<Rightarrow>
        (let new_approved_state = (qs_id staging_q \<in> with_answers)
         in case deref m qs (qs_id staging_q) of
              Some actual_q \<Rightarrow>
                (let tags_changed = (set (q_tags actual_q) \<noteq> set (qs_tags staging_q))
                 in (update_question (q_id actual_q)
                       (\<lambda>q. q\<lparr>q_question_text := qs_question_text staging_q,
                               q_updated_at := now,
                               q_is_approved := new_approved_state,
                               q_tags := qs_tags staging_q\<rparr>) qs,
                     m,
                     if q_is_approved actual_q \<noteq> new_approved_state \<or> tags_changed
                     then questions_synced + 1 else questions_synced))
            | None \<Rightarrow>
                (let actual_q = \<lparr>q_id = next_id (map q_id qs), q_run_id = run_id,
                                  q_staging_id = Some (qs_id staging_q),
                                  q_question_text = qs_question_text staging_q,
                                  q_is_approved = new_approved_state,
                                  q_created_at = now, q_updated_at = now,
                                  q_tags = qs_tags staging_q\<rparr>
                 in (qs @ [actual_q],
                     m(qs_id staging_q \<mapsto> q_id actual_q),
                     if new_approved_state then questions_synced + 1 else questions_synced))))"

text \<open>
  Lines 422 to 451: one approved staging answer. The query for the existing answer reads
  the \<^verbatim>\<open>answers\<close> table (\<open>tbl\<close>); a new answer is only added to the session (\<open>news\<close>) and
  reaches the table at the commit.
\<close>

definition upsert_answer ::
  "datetime \<Rightarrow> string \<Rightarrow> nat set \<Rightarrow> (nat \<rightharpoonup> nat) \<Rightarrow> question list \<Rightarrow> answer_staging
     \<Rightarrow> answer list \<times> answer list \<Rightarrow> answer list \<times> answer list" where
  "upsert_answer now run_id approved_ids m qs staging_a st =
     (case st of (tbl, news) \<Rightarrow>
        if as_question_id staging_a \<notin> approved_ids then (tbl, news)
        else (case deref m qs (as_question_id staging_a) of
                None \<Rightarrow> (tbl, news)
              | Some actual_q \<Rightarrow>
                  if q_id actual_q = 0 then (tbl, news)
                  else (case find (\<lambda>a. a_run_id a = run_id \<and> a_question_id a = q_id actual_q
                                        \<and> a_staging_id a = Some (as_id staging_a)) tbl of
                          Some existing_answer \<Rightarrow>
                            (update_answer (a_id existing_answer)
                               (\<lambda>a. a\<lparr>a_answer_text := as_answer_text staging_a,
                                       a_updated_at := now\<rparr>) tbl,
                             news)
                        | None \<Rightarrow>
                            (tbl,
                             news @ [\<lparr>a_id = next_id (map a_id (tbl @ news)), a_run_id = run_id,
                                      a_question_id = q_id actual_q,
                                      a_staging_id = Some (as_id staging_a),
                                      a_answer_text = as_answer_text staging_a,
                                      a_created_at = now, a_updated_at = now\<rparr>]))))"

text \<open>Lines 457 to 472: one row of \<^verbatim>\<open>all_actual_questions\<close>.\<close>

definition demote_question ::
  "datetime \<Rightarrow> string \<Rightarrow> nat set \<Rightarrow> nat set \<Rightarrow> question \<Rightarrow> nat \<Rightarrow> question \<times> nat" where
  "demote_question now run_id approved_ids with_answers actual_q questions_synced =
     (if q_run_id actual_q \<noteq> run_id then (actual_q, questions_synced)
      else (case q_staging_id actual_q of
              None \<Rightarrow> (actual_q, questions_synced)
            | Some s \<Rightarrow>
                if s = 0 then (actual_q, questions_synced)
                else if s \<notin> approved_ids \<or> s \<notin> with_answers
                then (actual_q\<lparr>q_is_approved := False, q_updated_at := now\<rparr>,
                      if q_is_approved actual_q then questions_synced + 1 else questions_synced)
                else (actual_q, questions_synced)))"

fun demote_questions ::
  "datetime \<Rightarrow> string \<Rightarrow> nat set \<Rightarrow> nat set \<Rightarrow> question list \<Rightarrow> nat \<Rightarrow> question list \<times> nat" where
  "demote_questions now run_id approved_ids with_answers [] questions_synced =
     ([], questions_synced)"
| "demote_questions now run_id approved_ids with_answers (actual_q # rest) questions_synced =
     (case demote_question now run_id approved_ids with_answers actual_q questions_synced of
        (actual_q', n) \<Rightarrow>
          (case demote_questions now run_id approved_ids with_answers rest n of
             (rest', n') \<Rightarrow> (actual_q' # rest', n')))"

text \<open>Lines 479 to 494: whether one row of \<^verbatim>\<open>all_actual_answers\<close> is deleted.\<close>

definition should_delete :: "nat set \<Rightarrow> nat set \<Rightarrow> question list \<Rightarrow> answer \<Rightarrow> bool" where
  "should_delete approved_ids approved_answer_ids qs actual_a =
     ((case a_staging_id actual_a of
         None \<Rightarrow> False
       | Some s \<Rightarrow> s \<noteq> 0 \<and> s \<notin> approved_answer_ids)
      \<or> (a_question_id actual_a \<noteq> 0 \<and>
          (case get_question (a_question_id actual_a) qs of
             None \<Rightarrow> False
           | Some actual_q \<Rightarrow>
               (case q_staging_id actual_q of
                  None \<Rightarrow> False
                | Some s \<Rightarrow> s \<noteq> 0 \<and> s \<notin> approved_ids))))"

subsection \<open>The session and its transaction\<close>

text \<open>
  A request works through one SQLAlchemy session on the SQLite file. \<open>committed\<close> is the
  file as of the last commit; \<open>store\<close> is the file as the open transaction has written it
  so far; \<open>work\<close> holds the rows as the session's objects carry them (with
  \<^verbatim>\<open>autoflush=False\<close> an attribute change is written at the next flush only);
  \<open>pending\<close> are the answers given to \<^verbatim>\<open>db.add\<close> and \<open>marked\<close> the answers given to
  \<^verbatim>\<open>db.delete\<close>, both waiting for the next flush.
\<close>

record session =
  committed :: database
  store :: database
  work :: database
  pending :: "answer list"
  marked :: "answer list"

definition open_session :: "database \<Rightarrow> session" where
  "open_session db = \<lparr>committed = db, store = db, work = db, pending = [], marked = []\<rparr>"

text \<open>
  \<^verbatim>\<open>db.flush()\<close> writes the session's state into the open transaction: the changed rows,
  the pending inserts, then the deletes. \<^verbatim>\<open>db.commit()\<close> flushes and makes the written
  file the committed one. \<^verbatim>\<open>db.rollback()\<close> restores the file of the last commit and
  expires the session's objects, so that they are read from that file again.
\<close>

definition flush :: "session \<Rightarrow> session" where
  "flush s =
     (let written = (work s)\<lparr>answers := filter (\<lambda>a. a \<notin> set (marked s)) (answers (work s))
                                         @ pending s\<rparr>
      in s\<lparr>store := written, work := written, pending := [], marked := []\<rparr>)"

definition commit :: "session \<Rightarrow> session" where
  "commit s = (let s' = flush s in s'\<lparr>committed := store s'\<rparr>)"

definition rollback :: "session \<Rightarrow> session" where
  "rollback s = s\<lparr>store := committed s, work := committed s, pending := [], marked := []\<rparr>"

subsection \<open>The six steps on the session\<close>

text \<open>
  Every step of the \<^verbatim>\<open>try\<close> block talks to the store (queries, lazy loads, the flush
  of line 407, the commit) and may raise there. A fault names the step in which the store
  raises, the number of iterations of that step's loop that are completed before it does
  (at most as many as the loop has), and the exception's text. \<open>Respond\<close> is line 504,
  after the commit, where the session reloads the expired \<^verbatim>\<open>run\<close>.
\<close>

datatype sync_step =
  Classify | UpsertQuestions | UpsertAnswers | DemoteQuestions | DeleteAnswers | Commit | Respond

type_synonym fault = "sync_step \<times> nat \<times> string"

definition raised :: "fault option \<Rightarrow> sync_step \<Rightarrow> string option" where
  "raised fault step =
     (case fault of
        None \<Rightarrow> None
      | Some (at, k, e) \<Rightarrow> if at = step then Some e else None)"

definition iterations :: "fault option \<Rightarrow> sync_step \<Rightarrow> 'a list \<Rightarrow> 'a list" where
  "iterations fault step xs =
     (case fault of
        None \<Rightarrow> xs
      | Some (at, k, e) \<Rightarrow> if at = step then take k xs else xs)"

text \<open>
  Lines 378 to 419 on the session: the row of an existing question is changed in the
  session only; a new question is added and flushed at once (line 407), which writes
  everything the session holds into the open transaction.
\<close>

definition sync_question ::
  "datetime \<Rightarrow> string \<Rightarrow> nat set \<Rightarrow> question_staging
     \<Rightarrow> session \<times> (nat \<rightharpoonup> nat) \<times> nat \<Rightarrow> session \<times> (nat \<rightharpoonup> nat) \<times> nat" where
  "sync_question now run_id with_answers staging_q st =
     (case st of (s, m, questions_synced) \<Rightarrow>
        (case upsert_question now run_id with_answers staging_q
                (questions (work s), m, questions_synced) of
           (qs, m', n) \<Rightarrow>
             (let s' = s\<lparr>work := (work s)\<lparr>questions := qs\<rparr>\<rparr>
              in (case deref m (questions (work s)) (qs_id staging_q) of
                    Some actual_q \<Rightarrow> s'
                  | None \<Rightarrow> flush s',
                  m', n))))"

text \<open>Lines 422 to 451 on the session: nothing is flushed.\<close>

definition sync_answer ::
  "datetime \<Rightarrow> string \<Rightarrow> nat set \<Rightarrow> (nat \<rightharpoonup> nat) \<Rightarrow> answer_staging \<Rightarrow> session \<Rightarrow> session" where
  "sync_answer now run_id approved_ids m staging_a s =
     (case upsert_answer now run_id approved_ids m (questions (work s)) staging_a
             (answers (work s), pending s) of
        (tbl, news) \<Rightarrow> s\<lparr>work := (work s)\<lparr>answers := tbl\<rparr>, pending := news\<rparr>)"

text \<open>
  Lines 455 to 472 on the session. The only statement that talks to the store is the
  query of line 455, before the loop.
\<close>

definition sync_demotions ::
  "datetime \<Rightarrow> string \<Rightarrow> nat set \<Rightarrow> nat set \<Rightarrow> session \<times> nat \<Rightarrow> session \<times> nat" where
  "sync_demotions now run_id approved_ids with_answers st =
     (case st of (s, questions_synced) \<Rightarrow>
        (case demote_questions now run_id approved_ids with_answers (questions (work s))
                questions_synced of
           (qs, n) \<Rightarrow> (s\<lparr>work := (work s)\<lparr>questions := qs\<rparr>\<rparr>, n)))"

text \<open>
  Lines 477 to 494 on the session: the rows of \<^verbatim>\<open>all_actual_answers\<close> that the loop
  reaches and finds deletable are marked.
\<close>

definition sync_deletions ::
  "fault option \<Rightarrow> string \<Rightarrow> nat set \<Rightarrow> nat set \<Rightarrow> session \<Rightarrow> session" where
  "sync_deletions fault run_id approved_ids approved_answer_ids s =
     s\<lparr>marked :=
         filter (should_delete approved_ids approved_answer_ids (questions (work s)))
           (iterations fault DeleteAnswers
              (filter (\<lambda>a. a_run_id a = run_id) (answers (work s))))\<rparr>"

subsection \<open>The endpoint\<close>

record sync_result =
  message :: string
  last_sync_at :: datetime
  questions_synced :: nat

text \<open>
  The body of the \<^verbatim>\<open>try\<close> block: the response, or the text of the exception raised,
  with the session as the body leaves it.
\<close>

definition try_body ::
  "fault option \<Rightarrow> datetime \<Rightarrow> string \<Rightarrow> session \<Rightarrow> (string + sync_result) \<times> session" where
  "try_body fault now run_id s0 =
     (case raised fault Classify of
        Some e \<Rightarrow> (Inl e, s0)
      | None \<Rightarrow>
     (let approved_ids = approved_staging_question_ids run_id (work s0);
          approved_answer_ids = approved_staging_answer_ids run_id (work s0);
          with_answers = approved_questions_with_answers run_id (work s0)
      in case fold (sync_question now run_id with_answers)
                (iterations fault UpsertQuestions (approved_questions run_id (work s0)))
                (s0, staging_to_actual_question run_id (questions (work s0)), 0) of
           (s2, m, n2) \<Rightarrow>
     (case raised fault UpsertQuestions of
        Some e \<Rightarrow> (Inl e, s2)
      | None \<Rightarrow>
     (let s3 = fold (sync_answer now run_id approved_ids m)
                 (iterations fault UpsertAnswers (approved_answers run_id (work s0))) s2
      in case raised fault UpsertAnswers of
           Some e \<Rightarrow> (Inl e, s3)
         | None \<Rightarrow>
     (case raised fault DemoteQuestions of
        Some e \<Rightarrow> (Inl e, s3)
      | None \<Rightarrow>
     (case sync_demotions now run_id approved_ids with_answers (s3, n2) of
        (s4, n4) \<Rightarrow>
     (let s5 = sync_deletions fault run_id approved_ids approved_answer_ids s4
      in case raised fault DeleteAnswers of
           Some e \<Rightarrow> (Inl e, s5)
         | None \<Rightarrow>
     (let s6 = s5\<lparr>work := (work s5)
                   \<lparr>runs := update_run run_id
                              (\<lambda>r. r\<lparr>r_last_sync_at := Some now, r_updated_at := now\<rparr>)
                              (runs (work s5))\<rparr>\<rparr>
      in case raised fault Commit of
           Some e \<Rightarrow> (Inl e, flush s6)
         | None \<Rightarrow>
     (let s7 = commit s6
      in case raised fault Respond of
           Some e \<Rightarrow> (Inl e, s7)
         | None \<Rightarrow>
             (Inr \<lparr>message = ''Sync completed successfully'', last_sync_at = now,
                   questions_synced = n4\<rparr>, s7))))))))))"

text \<open>
  The endpoint: the 404 before the \<^verbatim>\<open>try\<close> block, the body, and the handler, which
  rolls the session back and raises the 500. The database returned is the file as the
  request leaves it.
\<close>

definition sync_to_actual ::
  "fault option \<Rightarrow> datetime \<Rightarrow> string \<Rightarrow> database \<Rightarrow> (http_error + sync_result) \<times> database" where
  "sync_to_actual fault now run_id db =
     (case get_run run_id db of
        None \<Rightarrow> (Inl (HTTPException 404 ''Run not found''), db)
      | Some run \<Rightarrow>
         (case try_body fault now run_id (open_session db) of
            (Inr result, s) \<Rightarrow> (Inr result, store s)
          | (Inl e, s) \<Rightarrow>
              (Inl (HTTPException 500 (''Error syncing to actual tables: '' @ e)),
               store (rollback s))))"

subsection \<open>The pass in closed form\<close>

text \<open>
  What the six steps compute when nothing raises: the count and the committed database.
  At the commit the pending answers are inserted, then the marked ones deleted.
\<close>

definition reconcile :: "datetime \<Rightarrow> string \<Rightarrow> database \<Rightarrow> nat \<times> database" where
  "reconcile now run_id db =
     (let approved_ids = approved_staging_question_ids run_id db;
          approved_answer_ids = approved_staging_answer_ids run_id db;
          with_answers = approved_questions_with_answers run_id db
      in case fold (upsert_question now run_id with_answers) (approved_questions run_id db)
                (questions db, staging_to_actual_question run_id (questions db), 0) of
           (qs2, m, n2) \<Rightarrow>
             (case fold (upsert_answer now run_id approved_ids m qs2) (approved_answers run_id db)
                     (answers db, []) of
                (tbl, news) \<Rightarrow>
                  (case demote_questions now run_id approved_ids with_answers qs2 n2 of
                     (qs4, n4) \<Rightarrow>
                       (n4,
                        db\<lparr>questions := qs4,
                           answers :=
                             filter (\<lambda>a. \<not> (a_run_id a = run_id \<and>
                                            should_delete approved_ids approved_answer_ids qs4 a))
                               tbl @ news,
                           runs := update_run run_id
                                     (\<lambda>r. r\<lparr>r_last_sync_at := Some now, r_updated_at := now\<rparr>)
                                     (runs db)\<rparr>))))"

section \<open>Vocabulary of the properties\<close>

text \<open>
  What a sync pass never changes in a row of \<^verbatim>\<open>questions\<close>: key, run and staging link.
\<close>

definition ident :: "question \<Rightarrow> nat \<times> string \<times> nat option" where
  "ident q = (q_id q, q_run_id q, q_staging_id q)"

text \<open>
  A published question carries what the pass writes for a staging question: the link,
  the text, the flag and the tags.
\<close>

definition mirrors :: "string \<Rightarrow> nat set \<Rightarrow> question_staging \<Rightarrow> question \<Rightarrow> bool" where
  "mirrors run_id with_answers sq q =
     (q_run_id q = run_id \<and> q_staging_id q = Some (qs_id sq) \<and>
      q_question_text q = qs_question_text sq \<and>
      q_is_approved q = (qs_id sq \<in> with_answers) \<and> q_tags q = qs_tags sq)"

text \<open>The staging links of a run's published questions, in table order.\<close>

definition links :: "string \<Rightarrow> question list \<Rightarrow> nat list" where
  "links run_id qs =
     List.map_filter (\<lambda>q. if q_run_id q = run_id then q_staging_id q else None) qs"

text \<open>What a sync pass never changes in a row of \<^verbatim>\<open>answers\<close> that it keeps.\<close>

definition a_ident :: "answer \<Rightarrow> nat \<times> string \<times> nat \<times> nat option" where
  "a_ident a = (a_id a, a_run_id a, a_question_id a, a_staging_id a)"

text \<open>
  The filter of the query for the existing answer (lines 433 to 437): the published answer
  of run \<open>run_id\<close> for the published question \<open>k\<close>, derived from the staging answer.
\<close>

definition matches :: "string \<Rightarrow> nat \<Rightarrow> answer_staging \<Rightarrow> answer \<Rightarrow> bool" where
  "matches run_id k staging_a a =
     (a_run_id a = run_id \<and> a_question_id a = k \<and> a_staging_id a = Some (as_id staging_a))"

text \<open>
  The row the answer loop adds for an approved staging answer: it belongs to the published
  question the dictionary holds for the answer's (approved) staging question.
\<close>

definition added_for ::
  "string \<Rightarrow> nat set \<Rightarrow> (nat \<rightharpoonup> nat) \<Rightarrow> question list \<Rightarrow> answer_staging \<Rightarrow> answer \<Rightarrow> bool" where
  "added_for run_id approved_ids m qs staging_a a =
     (as_question_id staging_a \<in> approved_ids \<and>
      (case deref m qs (as_question_id staging_a) of
         None \<Rightarrow> False
       | Some actual_q \<Rightarrow> q_id actual_q \<noteq> 0 \<and> a_question_id a = q_id actual_q) \<and>
      a_run_id a = run_id \<and> a_staging_id a = Some (as_id staging_a) \<and>
      a_answer_text a = as_answer_text staging_a)"

text \<open>
  The second deletion rule of step 5 (lines 488 to 491): the answer's owning published
  question has a staging link (truthy) that names no approved staging question.
\<close>

definition owner_unapproved :: "nat set \<Rightarrow> question list \<Rightarrow> answer \<Rightarrow> bool" where
  "owner_unapproved approved_ids qs a =
     (a_question_id a \<noteq> 0 \<and>
      (case get_question (a_question_id a) qs of
         None \<Rightarrow> False
       | Some actual_q \<Rightarrow>
           (case q_staging_id actual_q of
              None \<Rightarrow> False
            | Some s \<Rightarrow> s \<noteq> 0 \<and> s \<notin> approved_ids)))"

text \<open>
  A published question of the run is stale when its staging link is set (and truthy) but
  names no approved staging question that has an approved answer: the rows step 4 demotes.
\<close>

definition stale :: "string \<Rightarrow> nat set \<Rightarrow> nat set \<Rightarrow> question \<Rightarrow> bool" where
  "stale run_id approved_ids with_answers q =
     (q_run_id q = run_id \<and>
      (case q_staging_id q of
         None \<Rightarrow> False
       | Some s \<Rightarrow> s \<noteq> 0 \<and> (s \<notin> approved_ids \<or> s \<notin> with_answers)))"

text \<open>The staging answers of a staging question, in table order.\<close>

definition answers_of :: "nat \<Rightarrow> answer_staging list \<Rightarrow> answer_staging list" where
  "answers_of question_id tbl = filter (\<lambda>a. as_question_id a = question_id) tbl"

text \<open>
  The gate of \<^verbatim>\<open>generate_answers\<close>: no answer of the question is pending or approved.
\<close>

definition regenerates :: "answer_staging list \<Rightarrow> question_staging \<Rightarrow> bool" where
  "regenerates tbl question =
     (\<not> list_ex (\<lambda>ans. as_is_approved ans \<noteq> Some False)
          (filter (\<lambda>a. as_question_id a = qs_id question) tbl))"



text \<open>The names of the tags a question carries.\<close>

definition tag_names :: "tag list \<Rightarrow> nat list \<Rightarrow> string set" where
  "tag_names tbl ids = set (map t_name (filter (\<lambda>t. t_id t \<in> set ids) tbl))"

text \<open>
  What one pass over a database with distinct keys does, in terms of the state after the
  question loop (\<open>qs2\<close>, with count \<open>n2\<close>) and after the answer loop (the table
  \<open>tbl\<close> and the pending rows \<open>news\<close>): the facts the properties below rest on.
\<close>

definition pass_facts ::
  "datetime \<Rightarrow> string \<Rightarrow> database \<Rightarrow> question list \<Rightarrow> nat \<Rightarrow> answer list \<Rightarrow> answer list \<Rightarrow> bool" where
  "pass_facts now r db qs2 n2 tbl news =
    (fold (upsert_question now r (approved_questions_with_answers r db)) (approved_questions r db)
       (questions db, staging_to_actual_question r (questions db), 0) =
       (qs2, staging_to_actual_question r qs2, n2) \<and>
     fold (upsert_answer now r (approved_staging_question_ids r db)
             (staging_to_actual_question r qs2) qs2) (approved_answers r db) (answers db, []) =
       (tbl, news) \<and>
     distinct (map q_id qs2) \<and>
     (\<exists>new. map ident qs2 = map ident (questions db) @ new) \<and>
     (distinct (links r (questions db)) \<longrightarrow> distinct (links r qs2)) \<and>
     (distinct (map qs_id (approved_questions r db)) \<longrightarrow>
        (\<forall>sq\<in>set (approved_questions r db). \<exists>q\<in>set qs2.
            staging_to_actual_question r qs2 (qs_id sq) = Some (q_id q) \<and>
            mirrors r (approved_questions_with_answers r db) sq q \<and> q_updated_at q = now)) \<and>
     (\<forall>q\<in>set (questions db).
        \<not> (q_run_id q = r \<and> (\<exists>sq\<in>set (approved_questions r db). q_staging_id q = Some (qs_id sq)))
        \<longrightarrow> q \<in> set qs2) \<and>
     (\<forall>q'\<in>set qs2. q' \<in> set (questions db) \<or>
        (q_run_id q' = r \<and> (\<exists>sq\<in>set (approved_questions r db). q_staging_id q' = Some (qs_id sq)))) \<and>
     map a_ident tbl = map a_ident (answers db) \<and>
     distinct (map a_id (tbl @ news)) \<and>
     (\<forall>a\<in>set news. \<exists>sa\<in>set (approved_answers r db).
        added_for r (approved_staging_question_ids r db) (staging_to_actual_question r qs2) qs2 sa a \<and>
        find (matches r (a_question_id a) sa) (answers db) = None) \<and>
     (distinct (map as_id (approved_answers r db)) \<longrightarrow>
        (\<forall>sa\<in>set (approved_answers r db). \<forall>q.
           as_question_id sa \<in> approved_staging_question_ids r db \<longrightarrow>
           deref (staging_to_actual_question r qs2) qs2 (as_question_id sa) = Some q \<longrightarrow>
           q_id q \<noteq> 0 \<longrightarrow>
           (case find (matches r (q_id q) sa) tbl of
              Some e \<Rightarrow> a_answer_text e = as_answer_text sa
            | None \<Rightarrow> (\<exists>a\<in>set news.
                added_for r (approved_staging_question_ids r db)
                  (staging_to_actual_question r qs2) qs2 sa a)))) \<and>
     (\<forall>a\<in>set (answers db).
        (\<forall>sa\<in>set (approved_answers r db). a_staging_id a \<noteq> Some (as_id sa)) \<longrightarrow> a \<in> set tbl) \<and>
     (\<forall>a'\<in>set tbl. a' \<in> set (answers db) \<or>
        (\<exists>sa\<in>set (approved_answers r db). a_staging_id a' = Some (as_id sa))) \<and>
     reconcile now r db =
       (n2 + length (filter (\<lambda>q. stale r (approved_staging_question_ids r db)
                                   (approved_questions_with_answers r db) q \<and> q_is_approved q) qs2),
        db\<lparr>questions :=
             map (\<lambda>q. if stale r (approved_staging_question_ids r db)
                            (approved_questions_with_answers r db) q
                       then q\<lparr>q_is_approved := False, q_updated_at := now\<rparr> else q) qs2,
           answers :=
             filter (\<lambda>a. \<not> (a_run_id a = r \<and>
                            should_delete (approved_staging_question_ids r db)
                              (approved_staging_answer_ids r db) qs2 a)) tbl @ news,
           runs := update_run r (\<lambda>r. r\<lparr>r_last_sync_at := Some now, r_updated_at := now\<rparr>)
                     (runs db)\<rparr>))"

section \<open>Example states\<close>

definition demo_run :: run where
  "demo_run = \<lparr>r_id = ''r'', r_summary = ''s'', r_created_at = 0, r_updated_at = 0,
                r_last_sync_at = None, r_last_staging_change_at = Some 5\<rparr>"

definition demo_llm :: llm_service where
  "demo_llm = \<lparr>llm_generate_questions = (\<lambda>summary n. Inr [''q'']),
                llm_generate_answer = (\<lambda>q summary. Inr ''a'')\<rparr>"

definition demo_db :: database where
  "demo_db = \<lparr>runs = [demo_run], question_staging = [], answer_staging = [],
               questions = [], answers = [], tags = []\<rparr>"

text \<open>
  A run with externally seeded published rows and no staging rows: question 1 carries a
  staging link (7) that no staging question has, question 2 carries none; each has one
  published answer without a staging link.
\<close>

definition seeded_db :: database where
  "seeded_db =
     \<lparr>runs = [demo_run], question_staging = [], answer_staging = [],
      questions =
        [\<lparr>q_id = 1, q_run_id = ''r'', q_staging_id = Some 7, q_question_text = ''t'',
          q_is_approved = True, q_created_at = 1, q_updated_at = 1, q_tags = []\<rparr>,
         \<lparr>q_id = 2, q_run_id = ''r'', q_staging_id = None, q_question_text = ''u'',
          q_is_approved = True, q_created_at = 1, q_updated_at = 1, q_tags = []\<rparr>],
      answers =
        [\<lparr>a_id = 1, a_run_id = ''r'', a_question_id = 1, a_staging_id = None,
          a_answer_text = ''x'', a_created_at = 1, a_updated_at = 1\<rparr>,
         \<lparr>a_id = 2, a_run_id = ''r'', a_question_id = 2, a_staging_id = None,
          a_answer_text = ''y'', a_created_at = 1, a_updated_at = 1\<rparr>],
      tags = []\<rparr>"

definition seeded_db_synced :: database where
  "seeded_db_synced =
     \<lparr>runs = [demo_run\<lparr>r_last_sync_at := Some 9, r_updated_at := 9\<rparr>],
      question_staging = [], answer_staging = [],
      questions =
        [\<lparr>q_id = 1, q_run_id = ''r'', q_staging_id = Some 7, q_question_text = ''t'',
          q_is_approved = False, q_created_at = 1, q_updated_at = 9, q_tags = []\<rparr>,
         \<lparr>q_id = 2, q_run_id = ''r'', q_staging_id = None, q_question_text = ''u'',
          q_is_approved = True, q_created_at = 1, q_updated_at = 1, q_tags = []\<rparr>],
      answers =
        [\<lparr>a_id = 2, a_run_id = ''r'', a_question_id = 2, a_staging_id = None,
          a_answer_text = ''y'', a_created_at = 1, a_updated_at = 1\<rparr>],
      tags = []\<rparr>"

text \<open>
  A run with a published question (flag set) and its published answer, both derived from
  staging rows: the staging question is still approved, the staging answer has been
  rejected since.
\<close>

definition lost_answer_db :: database where
  "lost_answer_db =
     \<lparr>runs = [demo_run],
      question_staging =
        [\<lparr>qs_id = 1, qs_run_id = ''r'', qs_question_text = ''q'', qs_is_approved = Some True,
          qs_created_at = 1, qs_updated_at = 1, qs_tags = []\<rparr>],
      answer_staging =
        [\<lparr>as_id = 1, as_run_id = ''r'', as_question_id = 1, as_answer_text = ''a'',
          as_is_approved = Some False, as_created_at = 2, as_updated_at = 4\<rparr>],
      questions =
        [\<lparr>q_id = 1, q_run_id = ''r'', q_staging_id = Some 1, q_question_text = ''q'',
          q_is_approved = True, q_created_at = 3, q_updated_at = 3, q_tags = []\<rparr>],
      answers =
        [\<lparr>a_id = 1, a_run_id = ''r'', a_question_id = 1, a_staging_id = Some 1,
          a_answer_text = ''a'', a_created_at = 3, a_updated_at = 3\<rparr>],
      tags = []\<rparr>"

definition lost_answer_db_synced :: database where
  "lost_answer_db_synced =
     \<lparr>runs = [demo_run\<lparr>r_last_sync_at := Some 9, r_updated_at := 9\<rparr>],
      question_staging =
        [\<lparr>qs_id = 1, qs_run_id = ''r'', qs_question_text = ''q'', qs_is_approved = Some True,
          qs_created_at = 1, qs_updated_at = 1, qs_tags = []\<rparr>],
      answer_staging =
        [\<lparr>as_id = 1, as_run_id = ''r'', as_question_id = 1, as_answer_text = ''a'',
          as_is_approved = Some False, as_created_at = 2, as_updated_at = 4\<rparr>],
      questions =
        [\<lparr>q_id = 1, q_run_id = ''r'', q_staging_id = Some 1, q_question_text = ''q'',
          q_is_approved = False, q_created_at = 3, q_updated_at = 9, q_tags = []\<rparr>],
      answers = [],
      tags = []\<rparr>"

text \<open>
  A run whose approved staging question and approved staging answer are published; then
  the staging question is rejected (at time 5), and the run is synced (at time 9).
\<close>

definition published_db :: database where
  "published_db =
     \<lparr>runs = [demo_run],
      question_staging =
        [\<lparr>qs_id = 1, qs_run_id = ''r'', qs_question_text = ''q'', qs_is_approved = Some True,
          qs_created_at = 1, qs_updated_at = 1, qs_tags = []\<rparr>],
      answer_staging =
        [\<lparr>as_id = 1, as_run_id = ''r'', as_question_id = 1, as_answer_text = ''a'',
          as_is_approved = Some True, as_created_at = 2, as_updated_at = 2\<rparr>],
      questions =
        [\<lparr>q_id = 1, q_run_id = ''r'', q_staging_id = Some 1, q_question_text = ''q'',
          q_is_approved = True, q_created_at = 3, q_updated_at = 3, q_tags = []\<rparr>],
      answers =
        [\<lparr>a_id = 1, a_run_id = ''r'', a_question_id = 1, a_staging_id = Some 1,
          a_answer_text = ''a'', a_created_at = 3, a_updated_at = 3\<rparr>],
      tags = []\<rparr>"


definition rejected_db :: database where
  "rejected_db =
     \<lparr>runs = [demo_run\<lparr>r_last_staging_change_at := Some 5, r_updated_at := 5\<rparr>],
      question_staging =
        [\<lparr>qs_id = 1, qs_run_id = ''r'', qs_question_text = ''q'', qs_is_approved = Some False,
          qs_created_at = 1, qs_updated_at = 5, qs_tags = []\<rparr>],
      answer_staging = [],
      questions =
        [\<lparr>q_id = 1, q_run_id = ''r'', q_staging_id = Some 1, q_question_text = ''q'',
          q_is_approved = True, q_created_at = 3, q_updated_at = 3, q_tags = []\<rparr>],
      answers =
        [\<lparr>a_id = 1, a_run_id = ''r'', a_question_id = 1, a_staging_id = Some 1,
          a_answer_text = ''a'', a_created_at = 3, a_updated_at = 3\<rparr>],
      tags = []\<rparr>"

definition rejected_db_synced :: database where
  "rejected_db_synced =
     \<lparr>runs = [demo_run\<lparr>r_last_staging_change_at := Some 5, r_updated_at := 9,
                         r_last_sync_at := Some 9\<rparr>],
      question_staging =
        [\<lparr>qs_id = 1, qs_run_id = ''r'', qs_question_text = ''q'', qs_is_approved = Some False,
          qs_created_at = 1, qs_updated_at = 5, qs_tags = []\<rparr>],
      answer_staging = [],
      questions =
        [\<lparr>q_id = 1, q_run_id = ''r'', q_staging_id = Some 1, q_question_text = ''q'',
          q_is_approved = False, q_created_at = 3, q_updated_at = 9, q_tags = []\<rparr>],
      answers = [],
      tags = []\<rparr>"

text \<open>
  A run with one approved staging question, not yet published; then its tags are set to
  a and b, the run is synced, the tags are changed to b and c, and the run is synced again.
\<close>

definition approved_db :: database where
  "approved_db =
     \<lparr>runs = [demo_run],
      question_staging =
        [\<lparr>qs_id = 1, qs_run_id = ''r'', qs_question_text = ''q'', qs_is_approved = Some True,
          qs_created_at = 1, qs_updated_at = 1, qs_tags = []\<rparr>],
      answer_staging = [], questions = [], answers = [], tags = []\<rparr>"

definition tags_ab :: database where
  "tags_ab = snd (update_question_tags 2 1 [''a'', ''b''] approved_db)"

definition tags_ab_synced :: database where
  "tags_ab_synced = snd (sync_to_actual None 3 ''r'' tags_ab)"

definition tags_bc :: database where
  "tags_bc = snd (update_question_tags 4 1 ['' b'', ''c '', '' ''] tags_ab_synced)"

definition tags_bc_synced :: database where
  "tags_bc_synced = snd (sync_to_actual None 5 ''r'' tags_bc)"

text \<open>
  A run whose only staging question is approved and has one rejected answer.
\<close>

definition rejected_answer_db :: database where
  "rejected_answer_db =
     \<lparr>runs = [demo_run],
      question_staging =
        [\<lparr>qs_id = 1, qs_run_id = ''r'', qs_question_text = ''q'', qs_is_approved = Some True,
          qs_created_at = 1, qs_updated_at = 1, qs_tags = []\<rparr>],
      answer_staging =
        [\<lparr>as_id = 1, as_run_id = ''r'', as_question_id = 1, as_answer_text = ''old'',
          as_is_approved = Some False, as_created_at = 2, as_updated_at = 3\<rparr>],
      questions = [], answers = [], tags = []\<rparr>"

definition regenerated_db :: database where
  "regenerated_db =
     \<lparr>runs = [demo_run],
      question_staging =
        [\<lparr>qs_id = 1, qs_run_id = ''r'', qs_question_text = ''q'', qs_is_approved = Some True,
          qs_created_at = 1, qs_updated_at = 1, qs_tags = []\<rparr>],
      answer_staging =
        [\<lparr>as_id = 2, as_run_id = ''r'', as_question_id = 1, as_answer_text = ''a'',
          as_is_approved = None, as_created_at = 9, as_updated_at = 9\<rparr>],
      questions = [], answers = [], tags = []\<rparr>"

lemma fold_max_ge: "a \<le> fold max ids (a::nat)"
proof (induction ids arbitrary: a)
  case Nil show ?case by simp
next
  case (Cons x xs)
  have "a \<le> max x a" by simp
  also have "\<dots> \<le> fold max xs (max x a)" by (rule Cons.IH)
  finally show ?case by simp
qed

lemma fold_max_mem: "x \<in> set ids \<Longrightarrow> x \<le> fold max ids (a::nat)"
proof (induction ids arbitrary: a)
  case Nil then show ?case by simp
next
  case (Cons y ys)
  show ?case
  proof (cases "x = y")
    case True
    have "x \<le> max y a" using True by simp
    also have "\<dots> \<le> fold max ys (max y a)" by (rule fold_max_ge)
    finally show ?thesis by simp
  next
    case False
    with Cons.prems have "x \<in> set ys" by simp
    then show ?thesis using Cons.IH by simp
  qed
qed

lemma next_id_gt: "x \<in> set ids \<Longrightarrow> x < next_id ids"
  by (simp add: next_id_def fold_max_mem less_Suc_eq_le)

lemma next_id_fresh: "next_id ids \<notin> set ids"
  using next_id_gt by blast

lemma next_id_pos: "next_id ids \<noteq> 0"
  by (simp add: next_id_def)

lemma distinct_map_eq:
  "distinct (map f xs) \<Longrightarrow> x \<in> set xs \<Longrightarrow> y \<in> set xs \<Longrightarrow> f x = f y \<Longrightarrow> x = y"
  by (simp add: distinct_map inj_on_def)

lemma get_question_SomeD: "get_question k qs = Some q \<Longrightarrow> q \<in> set qs \<and> q_id q = k"
  unfolding get_question_def by (induction qs) (auto split: if_splits)

lemma get_question_None: "get_question k qs = None \<longleftrightarrow> k \<notin> q_id ` set qs"
  unfolding get_question_def by (induction qs) auto

lemma get_question_distinct:
  "distinct (map q_id qs) \<Longrightarrow> q \<in> set qs \<Longrightarrow> get_question (q_id q) qs = Some q"
  unfolding get_question_def by (induction qs) (auto simp: rev_image_eqI)

lemma index_Nil [simp]: "staging_to_actual_question r [] = Map.empty"
  by (simp add: staging_to_actual_question_def)

lemma index_snoc:
  "staging_to_actual_question r (qs @ [q]) =
     (if q_run_id q = r
      then (case q_staging_id q of
              Some s \<Rightarrow> (staging_to_actual_question r qs)(s \<mapsto> q_id q)
            | None \<Rightarrow> staging_to_actual_question r qs)
      else staging_to_actual_question r qs)"
  by (auto simp: staging_to_actual_question_def split: option.splits)

lemma index_SomeD:
  "staging_to_actual_question r qs s = Some k \<Longrightarrow>
     \<exists>q\<in>set qs. q_id q = k \<and> q_run_id q = r \<and> q_staging_id q = Some s"
proof (induction qs rule: rev_induct)
  case Nil then show ?case by simp
next
  case (snoc q qs)
  then show ?case
    by (auto simp: index_snoc split: if_splits option.splits)
qed

lemma index_None:
  "staging_to_actual_question r qs s = None \<longleftrightarrow>
     (\<forall>q\<in>set qs. \<not> (q_run_id q = r \<and> q_staging_id q = Some s))"
proof (induction qs rule: rev_induct)
  case Nil then show ?case by simp
next
  case (snoc q qs)
  then show ?case
    by (auto simp: index_snoc split: if_splits option.splits)
qed

lemma index_fold_ident:
  "fold (\<lambda>aq m. case q_staging_id aq of Some s \<Rightarrow> m(s \<mapsto> q_id aq) | None \<Rightarrow> m)
     (filter (\<lambda>q. q_run_id q = r \<and> q_staging_id q \<noteq> None) qs) m0 =
   fold (\<lambda>i m. case i of (k, rr, so) \<Rightarrow>
           (if rr = r then (case so of Some s \<Rightarrow> m(s \<mapsto> k) | None \<Rightarrow> m) else m))
     (map ident qs) m0"
  by (induction qs arbitrary: m0) (auto simp: ident_def split: option.splits)

lemma index_cong:
  "map ident qs = map ident qs' \<Longrightarrow>
     staging_to_actual_question r qs = staging_to_actual_question r qs'"
  unfolding staging_to_actual_question_def index_fold_ident by simp

lemma ident_update_question:
  "(\<And>q. ident (f q) = ident q) \<Longrightarrow> map ident (update_question k f qs) = map ident qs"
  by (simp add: update_question_def)

lemma q_id_ident: "map q_id qs = map (fst \<circ> ident) qs"
  by (simp add: ident_def)

lemma ident_eq_q_id: "map ident qs = map ident qs' \<Longrightarrow> map q_id qs = map q_id qs'"
  by (metis q_id_ident map_map)

text \<open>one iteration of the question loop\<close>

lemma upsert_question_cases:
  assumes "distinct (map q_id qs)"
  obtains
    (update) q where "q \<in> set qs" "q_run_id q = r" "q_staging_id q = Some (qs_id sq)"
      "staging_to_actual_question r qs (qs_id sq) = Some (q_id q)"
      "upsert_question now r W sq (qs, staging_to_actual_question r qs, n) =
         (update_question (q_id q)
            (\<lambda>q. q\<lparr>q_question_text := qs_question_text sq, q_updated_at := now,
                    q_is_approved := (qs_id sq \<in> W), q_tags := qs_tags sq\<rparr>) qs,
          staging_to_actual_question r qs,
          if q_is_approved q \<noteq> (qs_id sq \<in> W) \<or> set (q_tags q) \<noteq> set (qs_tags sq)
          then n + 1 else n)"
  | (create) "\<forall>q\<in>set qs. \<not> (q_run_id q = r \<and> q_staging_id q = Some (qs_id sq))"
      "upsert_question now r W sq (qs, staging_to_actual_question r qs, n) =
         (qs @ [\<lparr>q_id = next_id (map q_id qs), q_run_id = r,
                  q_staging_id = Some (qs_id sq),
                  q_question_text = qs_question_text sq,
                  q_is_approved = (qs_id sq \<in> W),
                  q_created_at = now, q_updated_at = now, q_tags = qs_tags sq\<rparr>],
          (staging_to_actual_question r qs)(qs_id sq \<mapsto> next_id (map q_id qs)),
          if qs_id sq \<in> W then n + 1 else n)"
proof (cases "staging_to_actual_question r qs (qs_id sq)")
  case None
  then have "\<forall>q\<in>set qs. \<not> (q_run_id q = r \<and> q_staging_id q = Some (qs_id sq))"
    by (simp add: index_None)
  moreover have "deref (staging_to_actual_question r qs) qs (qs_id sq) = None"
    using None by (simp add: deref_def)
  ultimately show ?thesis
    using create by (simp add: upsert_question_def Let_def)
next
  case (Some k)
  then obtain q where q: "q \<in> set qs" "q_id q = k" "q_run_id q = r"
      "q_staging_id q = Some (qs_id sq)"
    using index_SomeD by blast
  have "deref (staging_to_actual_question r qs) qs (qs_id sq) = Some q"
    using Some q assms by (auto simp: deref_def get_question_distinct)
  then show ?thesis
    using update [of q] q Some by (simp add: upsert_question_def Let_def)
qed

lemma links_ident:
  "links r qs = List.map_filter (\<lambda>i. if fst (snd i) = r then snd (snd i) else None) (map ident qs)"
  by (simp add: links_def map_filter_def ident_def filter_map comp_def)

lemma links_cong: "map ident qs = map ident qs' \<Longrightarrow> links r qs = links r qs'"
  by (simp add: links_ident)

lemma links_append: "links r (xs @ ys) = links r xs @ links r ys"
  by (simp add: links_def map_filter_def)

lemma links_single:
  "q_run_id q = r \<Longrightarrow> q_staging_id q = Some s \<Longrightarrow> links r [q] = [s]"
  "q_run_id q \<noteq> r \<Longrightarrow> links r [q] = []"
  "q_staging_id q = None \<Longrightarrow> links r [q] = []"
  by (simp_all add: links_def map_filter_def)

lemma set_links: "s \<in> set (links r qs) \<longleftrightarrow> (\<exists>q\<in>set qs. q_run_id q = r \<and> q_staging_id q = Some s)"
proof (induction qs rule: rev_induct)
  case Nil show ?case by (simp add: links_def map_filter_def)
next
  case (snoc x xs)
  show ?case
  proof (cases "q_run_id x = r")
    case False
    then show ?thesis using snoc by (auto simp: links_append links_single)
  next
    case True
    show ?thesis
    proof (cases "q_staging_id x")
      case None
      then show ?thesis using snoc by (auto simp: links_append links_single)
    next
      case (Some t)
      then show ?thesis using snoc True by (auto simp: links_append links_single)
    qed
  qed
qed

lemma links_unique_eq:
  "distinct (links r qs) \<Longrightarrow> q \<in> set qs \<Longrightarrow> q' \<in> set qs \<Longrightarrow>
   q_run_id q = r \<Longrightarrow> q_run_id q' = r \<Longrightarrow> q_staging_id q = Some s \<Longrightarrow> q_staging_id q' = Some s \<Longrightarrow>
   q = q'"
proof (induction qs rule: rev_induct)
  case Nil then show ?case by simp
next
  case (snoc x xs)
  have dx: "distinct (links r xs)" using snoc.prems(1) by (simp add: links_append)
  show ?case
  proof (cases "q = x \<or> q' = x")
    case False
    then have "q \<in> set xs" "q' \<in> set xs" using snoc.prems by auto
    then show ?thesis using snoc.IH dx snoc.prems by blast
  next
    case True
    show ?thesis
    proof (rule ccontr)
      assume ne: "q \<noteq> q'"
      from True ne snoc.prems have "(q = x \<and> q' \<in> set xs) \<or> (q' = x \<and> q \<in> set xs)" by auto
      then have "s \<in> set (links r xs)" "q_run_id x = r" "q_staging_id x = Some s"
        using snoc.prems by (auto simp: set_links)
      with snoc.prems(1) show False by (simp add: links_append links_single)
    qed
  qed
qed

lemma update_question_mem:
  "q \<in> set qs \<Longrightarrow> q_id q \<noteq> k \<Longrightarrow> q \<in> set (update_question k f qs)"
  by (force simp: update_question_def)

lemma update_question_target:
  "q \<in> set qs \<Longrightarrow> f q \<in> set (update_question (q_id q) f qs)"
  by (force simp: update_question_def)

lemma upsert_question_step:
  assumes d: "distinct (map q_id qs)"
  obtains qs' n' where
    "upsert_question now r W sq (qs, staging_to_actual_question r qs, n) =
       (qs', staging_to_actual_question r qs', n')"
    "distinct (map q_id qs')"
    "\<exists>new. map ident qs' = map ident qs @ new"
    "distinct (links r qs) \<Longrightarrow> distinct (links r qs')"
    "\<exists>q\<in>set qs'. staging_to_actual_question r qs' (qs_id sq) = Some (q_id q) \<and>
        mirrors r W sq q \<and> q_updated_at q = now"
    "\<And>q. q \<in> set qs \<Longrightarrow> \<not> (q_run_id q = r \<and> q_staging_id q = Some (qs_id sq)) \<Longrightarrow> q \<in> set qs'"
    "\<And>s. s \<noteq> qs_id sq \<Longrightarrow> staging_to_actual_question r qs' s = staging_to_actual_question r qs s"
    "\<And>q'. q' \<in> set qs' \<Longrightarrow> q' \<in> set qs \<or> (q_run_id q' = r \<and> q_staging_id q' = Some (qs_id sq))"
  using d
proof (cases rule: upsert_question_cases [where r=r and sq=sq and now=now and W=W and n=n])
  case (update q)
  let ?f = "\<lambda>q. q\<lparr>q_question_text := qs_question_text sq, q_updated_at := now,
                    q_is_approved := (qs_id sq \<in> W), q_tags := qs_tags sq\<rparr>"
  let ?qs' = "update_question (q_id q) ?f qs"
  have id: "map ident ?qs' = map ident qs"
    by (rule ident_update_question) (simp add: ident_def)
  have idx: "staging_to_actual_question r ?qs' = staging_to_actual_question r qs"
    by (rule index_cong [OF id])
  show ?thesis
  proof (rule that [of ?qs'])
    show "upsert_question now r W sq (qs, staging_to_actual_question r qs, n) =
       (?qs', staging_to_actual_question r ?qs',
        if q_is_approved q \<noteq> (qs_id sq \<in> W) \<or> set (q_tags q) \<noteq> set (qs_tags sq) then n + 1 else n)"
      using update(5) idx by simp
    show "distinct (map q_id ?qs')" using d ident_eq_q_id [OF id] by simp
    show "\<exists>new. map ident ?qs' = map ident qs @ new" using id by simp
    show "distinct (links r qs) \<Longrightarrow> distinct (links r ?qs')" using links_cong [OF id] by simp
    show "\<exists>q\<in>set ?qs'. staging_to_actual_question r ?qs' (qs_id sq) = Some (q_id q) \<and>
        mirrors r W sq q \<and> q_updated_at q = now"
      using update_question_target [OF update(1), of ?f] update(2,3,4) idx
      by (intro bexI [of _ "?f q"]) (simp_all add: mirrors_def)
    show "\<And>s. s \<noteq> qs_id sq \<Longrightarrow> staging_to_actual_question r ?qs' s = staging_to_actual_question r qs s"
      using idx by simp
  next
    fix q' assume "q' \<in> set ?qs'"
    then obtain q0 where q0: "q0 \<in> set qs" "q' = (if q_id q0 = q_id q then ?f q0 else q0)"
      by (auto simp: update_question_def)
    show "q' \<in> set qs \<or> (q_run_id q' = r \<and> q_staging_id q' = Some (qs_id sq))"
    proof (cases "q_id q0 = q_id q")
      case True
      then have "q0 = q" using d q0(1) update(1) by (metis distinct_map inj_onD)
      then show ?thesis using q0(2) True update(2,3) by simp
    next
      case False
      then show ?thesis using q0 by simp
    qed
  next
    fix q' assume q': "q' \<in> set qs" "\<not> (q_run_id q' = r \<and> q_staging_id q' = Some (qs_id sq))"
    have "q_id q' \<noteq> q_id q"
    proof
      assume "q_id q' = q_id q"
      then have "q' = q" using d q'(1) update(1) by (metis distinct_map inj_onD)
      with q'(2) update(2,3) show False by simp
    qed
    then show "q' \<in> set ?qs'" using q'(1) by (rule update_question_mem [rotated])
  qed
next
  case create
  let ?new = "\<lparr>q_id = next_id (map q_id qs), q_run_id = r,
                  q_staging_id = Some (qs_id sq),
                  q_question_text = qs_question_text sq,
                  q_is_approved = (qs_id sq \<in> W),
                  q_created_at = now, q_updated_at = now, q_tags = qs_tags sq\<rparr>"
  let ?qs' = "qs @ [?new]"
  have idx: "staging_to_actual_question r ?qs' = (staging_to_actual_question r qs)(qs_id sq \<mapsto> next_id (map q_id qs))"
    by (simp add: index_snoc)
  show ?thesis
  proof (rule that [of ?qs'])
    show "upsert_question now r W sq (qs, staging_to_actual_question r qs, n) =
       (?qs', staging_to_actual_question r ?qs', if qs_id sq \<in> W then n + 1 else n)"
      using create(2) idx by simp
    show "distinct (map q_id ?qs')" using d next_id_fresh [of "map q_id qs"] by simp
    show "\<exists>new. map ident ?qs' = map ident qs @ new" by simp
    show "distinct (links r qs) \<Longrightarrow> distinct (links r ?qs')"
      using create(1) by (auto simp: links_append links_single set_links)
    show "\<exists>q\<in>set ?qs'. staging_to_actual_question r ?qs' (qs_id sq) = Some (q_id q) \<and>
        mirrors r W sq q \<and> q_updated_at q = now"
      by (intro bexI [of _ ?new]) (simp_all add: mirrors_def idx)
    show "\<And>s. s \<noteq> qs_id sq \<Longrightarrow> staging_to_actual_question r ?qs' s = staging_to_actual_question r qs s"
      by (simp add: idx)
    show "\<And>q. q \<in> set qs \<Longrightarrow> \<not> (q_run_id q = r \<and> q_staging_id q = Some (qs_id sq)) \<Longrightarrow> q \<in> set ?qs'"
      by simp
    show "\<And>q'. q' \<in> set ?qs' \<Longrightarrow> q' \<in> set qs \<or> (q_run_id q' = r \<and> q_staging_id q' = Some (qs_id sq))"
      by auto
  qed
qed

lemma sync_questions_fold:
  assumes "distinct (map q_id qs)"
  shows "\<exists>qs' n'.
    fold (upsert_question now r W) xs (qs, staging_to_actual_question r qs, n) =
       (qs', staging_to_actual_question r qs', n') \<and>
    distinct (map q_id qs') \<and>
    (\<exists>new. map ident qs' = map ident qs @ new) \<and>
    (distinct (links r qs) \<longrightarrow> distinct (links r qs')) \<and>
    (distinct (map qs_id xs) \<longrightarrow>
       (\<forall>sq\<in>set xs. \<exists>q\<in>set qs'. staging_to_actual_question r qs' (qs_id sq) = Some (q_id q) \<and>
          mirrors r W sq q \<and> q_updated_at q = now)) \<and>
    (\<forall>q\<in>set qs. \<not> (q_run_id q = r \<and> (\<exists>sq\<in>set xs. q_staging_id q = Some (qs_id sq)))
        \<longrightarrow> q \<in> set qs') \<and>
    (\<forall>s. s \<notin> qs_id ` set xs \<longrightarrow>
        staging_to_actual_question r qs' s = staging_to_actual_question r qs s) \<and>
    (\<forall>q'\<in>set qs'. q' \<in> set qs \<or>
        (q_run_id q' = r \<and> (\<exists>sq\<in>set xs. q_staging_id q' = Some (qs_id sq))))"
  using assms
proof (induction xs arbitrary: qs n)
  case Nil
  then show ?case by simp
next
  case (Cons sq rest)
  show ?case
  proof (rule upsert_question_step [OF Cons.prems, of now r W sq n])
  fix qs1 n1
  assume s1: "upsert_question now r W sq (qs, staging_to_actual_question r qs, n) =
           (qs1, staging_to_actual_question r qs1, n1)"
    and d1: "distinct (map q_id qs1)"
    and i1: "\<exists>new. map ident qs1 = map ident qs @ new"
    and l1: "distinct (links r qs) \<Longrightarrow> distinct (links r qs1)"
    and m1: "\<exists>q\<in>set qs1. staging_to_actual_question r qs1 (qs_id sq) = Some (q_id q) \<and>
               mirrors r W sq q \<and> q_updated_at q = now"
    and p1: "\<And>q. q \<in> set qs \<Longrightarrow> \<not> (q_run_id q = r \<and> q_staging_id q = Some (qs_id sq))
               \<Longrightarrow> q \<in> set qs1"
    and x1: "\<And>s. s \<noteq> qs_id sq \<Longrightarrow>
               staging_to_actual_question r qs1 s = staging_to_actual_question r qs s"
    and r1: "\<And>q'. q' \<in> set qs1 \<Longrightarrow>
               q' \<in> set qs \<or> (q_run_id q' = r \<and> q_staging_id q' = Some (qs_id sq))"
  from Cons.IH [OF d1, of n1] obtain qs' n' where
    f2: "fold (upsert_question now r W) rest (qs1, staging_to_actual_question r qs1, n1) =
           (qs', staging_to_actual_question r qs', n')"
    and d2: "distinct (map q_id qs')"
    and i2: "\<exists>new. map ident qs' = map ident qs1 @ new"
    and l2: "distinct (links r qs1) \<longrightarrow> distinct (links r qs')"
    and m2: "distinct (map qs_id rest) \<longrightarrow>
       (\<forall>sq\<in>set rest. \<exists>q\<in>set qs'. staging_to_actual_question r qs' (qs_id sq) = Some (q_id q) \<and>
          mirrors r W sq q \<and> q_updated_at q = now)"
    and p2: "\<forall>q\<in>set qs1. \<not> (q_run_id q = r \<and> (\<exists>sq\<in>set rest. q_staging_id q = Some (qs_id sq)))
        \<longrightarrow> q \<in> set qs'"
    and x2: "\<forall>s. s \<notin> qs_id ` set rest \<longrightarrow>
        staging_to_actual_question r qs' s = staging_to_actual_question r qs1 s"
    and r2: "\<forall>q'\<in>set qs'. q' \<in> set qs1 \<or>
        (q_run_id q' = r \<and> (\<exists>sq\<in>set rest. q_staging_id q' = Some (qs_id sq)))"
    by blast
  have a: "fold (upsert_question now r W) (sq # rest) (qs, staging_to_actual_question r qs, n) =
       (qs', staging_to_actual_question r qs', n')"
    using s1 f2 by simp
  have b: "\<exists>new. map ident qs' = map ident qs @ new"
    using i1 i2 by auto
  have c: "distinct (links r qs) \<longrightarrow> distinct (links r qs')"
    using l1 l2 by blast
  have d: "distinct (map qs_id (sq # rest)) \<longrightarrow>
       (\<forall>sq'\<in>set (sq # rest). \<exists>q\<in>set qs'. staging_to_actual_question r qs' (qs_id sq') = Some (q_id q) \<and>
          mirrors r W sq' q \<and> q_updated_at q = now)"
  proof
    assume dist: "distinct (map qs_id (sq # rest))"
    then have nin: "qs_id sq \<notin> qs_id ` set rest" and dr: "distinct (map qs_id rest)" by auto
    from m1 obtain q1 where q1: "q1 \<in> set qs1"
        "staging_to_actual_question r qs1 (qs_id sq) = Some (q_id q1)"
        "mirrors r W sq q1" "q_updated_at q1 = now" by blast
    have "q_staging_id q1 = Some (qs_id sq)" using q1(3) by (simp add: mirrors_def)
    then have "\<not> (q_run_id q1 = r \<and> (\<exists>sq'\<in>set rest. q_staging_id q1 = Some (qs_id sq')))"
      using nin by auto
    then have "q1 \<in> set qs'" using p2 q1(1) by blast
    moreover have "staging_to_actual_question r qs' (qs_id sq) = Some (q_id q1)"
      using x2 nin q1(2) by simp
    ultimately have hd: "\<exists>q\<in>set qs'. staging_to_actual_question r qs' (qs_id sq) = Some (q_id q) \<and>
          mirrors r W sq q \<and> q_updated_at q = now"
      using q1(3,4) by blast
    show "\<forall>sq'\<in>set (sq # rest). \<exists>q\<in>set qs'. staging_to_actual_question r qs' (qs_id sq') = Some (q_id q) \<and>
          mirrors r W sq' q \<and> q_updated_at q = now"
      using hd m2 dr by simp
  qed
  have e: "\<forall>q\<in>set qs. \<not> (q_run_id q = r \<and> (\<exists>sq'\<in>set (sq # rest). q_staging_id q = Some (qs_id sq')))
        \<longrightarrow> q \<in> set qs'"
  proof (intro ballI impI)
    fix q assume q: "q \<in> set qs"
      "\<not> (q_run_id q = r \<and> (\<exists>sq'\<in>set (sq # rest). q_staging_id q = Some (qs_id sq')))"
    then have "q \<in> set qs1" using p1 [of q] by auto
    moreover have "\<not> (q_run_id q = r \<and> (\<exists>sq'\<in>set rest. q_staging_id q = Some (qs_id sq')))"
      using q(2) by auto
    ultimately show "q \<in> set qs'" using p2 by blast
  qed
  have f: "\<forall>s. s \<notin> qs_id ` set (sq # rest) \<longrightarrow>
        staging_to_actual_question r qs' s = staging_to_actual_question r qs s"
    using x1 x2 by auto
  have g: "\<forall>q'\<in>set qs'. q' \<in> set qs \<or>
        (q_run_id q' = r \<and> (\<exists>sq'\<in>set (sq # rest). q_staging_id q' = Some (qs_id sq')))"
  proof
    fix q' assume "q' \<in> set qs'"
    then consider "q' \<in> set qs1"
      | "q_run_id q' = r \<and> (\<exists>sq\<in>set rest. q_staging_id q' = Some (qs_id sq))"
      using r2 by blast
    then show "q' \<in> set qs \<or>
        (q_run_id q' = r \<and> (\<exists>sq'\<in>set (sq # rest). q_staging_id q' = Some (qs_id sq')))"
    proof cases
      case 1
      then show ?thesis using r1 [of q'] by auto
    next
      case 2
      then show ?thesis by auto
    qed
  qed
  show ?case
    by (rule exI [of _ qs'], rule exI [of _ n'], intro conjI)
       (fact a, fact d2, fact b, fact c, fact d, fact e, fact f, fact g)
  qed
qed

lemma demote_question_eq:
  "demote_question now r A W q n =
     (if stale r A W q
      then (q\<lparr>q_is_approved := False, q_updated_at := now\<rparr>, if q_is_approved q then n + 1 else n)
      else (q, n))"
  by (auto simp: demote_question_def stale_def split: option.splits)

lemma demote_questions_eq:
  "demote_questions now r A W qs n =
     (map (\<lambda>q. if stale r A W q then q\<lparr>q_is_approved := False, q_updated_at := now\<rparr> else q) qs,
      n + length (filter (\<lambda>q. stale r A W q \<and> q_is_approved q) qs))"
  by (induction qs arbitrary: n) (simp_all add: demote_question_eq)

lemma ident_demote:
  "map ident (map (\<lambda>q. if stale r A W q then q\<lparr>q_is_approved := False, q_updated_at := now\<rparr> else q) qs)
     = map ident qs"
  by (simp add: ident_def)

lemma find_filter: "find P (filter Q xs) = find (\<lambda>x. Q x \<and> P x) xs"
  by (induction xs) auto

lemma find_conj_Some: "find P xs = Some e \<Longrightarrow> Q e \<Longrightarrow> find (\<lambda>x. Q x \<and> P x) xs = Some e"
  by (induction xs) (auto split: if_splits)

lemma find_SomeD: "find P xs = Some e \<Longrightarrow> e \<in> set xs \<and> P e"
  by (induction xs) (auto split: if_splits)

lemma find_None: "find P xs = None \<longleftrightarrow> (\<forall>x\<in>set xs. \<not> P x)"
  by (induction xs) auto

lemma find_map_cong:
  "(\<And>x. P (g x) = P x) \<Longrightarrow> find P (map g xs) = map_option g (find P xs)"
  by (induction xs) auto

lemma matches_ident: "a_ident a = a_ident b \<Longrightarrow> matches r k sa a = matches r k sa b"
  by (simp add: matches_def a_ident_def)

lemma a_ident_update_answer:
  "(\<And>a. a_ident (F a) = a_ident a) \<Longrightarrow> map a_ident (update_answer i F tbl) = map a_ident tbl"
  by (simp add: update_answer_def)

lemma a_ident_a_id: "map a_ident xs = map a_ident ys \<Longrightarrow> map a_id xs = map a_id ys"
proof -
  assume "map a_ident xs = map a_ident ys"
  then have "map (fst \<circ> a_ident) xs = map (fst \<circ> a_ident) ys" by (metis map_map)
  then show ?thesis by (simp add: a_ident_def comp_def)
qed

lemma find_update_answer:
  "(\<And>a. a_ident (F a) = a_ident a) \<Longrightarrow>
   find (matches r k sa) (update_answer i F tbl) =
     map_option (\<lambda>a. if a_id a = i then F a else a) (find (matches r k sa) tbl)"
  unfolding update_answer_def
  by (rule find_map_cong) (simp add: matches_def a_ident_def)

lemma update_answer_mem:
  "a \<in> set tbl \<Longrightarrow> a_id a \<noteq> i \<Longrightarrow> a \<in> set (update_answer i F tbl)"
  by (force simp: update_answer_def)

text \<open>one iteration of the answer loop\<close>

lemma upsert_answer_cases:
  obtains
    (skip) "\<not> (as_question_id sa \<in> A \<and> (\<exists>q. deref m qs (as_question_id sa) = Some q \<and> q_id q \<noteq> 0))"
      "upsert_answer now r A m qs sa (tbl, news) = (tbl, news)"
  | (update) q e where "as_question_id sa \<in> A" "deref m qs (as_question_id sa) = Some q" "q_id q \<noteq> 0"
      "find (matches r (q_id q) sa) tbl = Some e"
      "upsert_answer now r A m qs sa (tbl, news) =
         (update_answer (a_id e)
            (\<lambda>a. a\<lparr>a_answer_text := as_answer_text sa, a_updated_at := now\<rparr>) tbl, news)"
  | (create) q where "as_question_id sa \<in> A" "deref m qs (as_question_id sa) = Some q" "q_id q \<noteq> 0"
      "find (matches r (q_id q) sa) tbl = None"
      "upsert_answer now r A m qs sa (tbl, news) =
         (tbl, news @ [\<lparr>a_id = next_id (map a_id (tbl @ news)), a_run_id = r,
                         a_question_id = q_id q, a_staging_id = Some (as_id sa),
                         a_answer_text = as_answer_text sa,
                         a_created_at = now, a_updated_at = now\<rparr>])"
proof -
  have m: "(\<lambda>a. a_run_id a = r \<and> a_question_id a = k \<and> a_staging_id a = Some (as_id sa)) = matches r k sa" for k
    by (simp add: matches_def fun_eq_iff)
  show ?thesis
  proof (cases "as_question_id sa \<in> A")
    case False
    then show ?thesis using skip by (simp add: upsert_answer_def)
  next
    case inA: True
    show ?thesis
    proof (cases "deref m qs (as_question_id sa)")
      case None
      then show ?thesis using skip by (simp add: upsert_answer_def)
    next
      case (Some q)
      show ?thesis
      proof (cases "q_id q = 0")
        case True
        then show ?thesis using skip Some by (simp add: upsert_answer_def)
      next
        case nz: False
        show ?thesis
        proof (cases "find (matches r (q_id q) sa) tbl")
          case None
          then show ?thesis using create [of q] inA Some nz
            by (simp add: upsert_answer_def m)
        next
          case (Some e)
          then show ?thesis using update [of q e] inA \<open>deref m qs (as_question_id sa) = Some q\<close> nz
            by (simp add: upsert_answer_def m)
        qed
      qed
    qed
  qed
qed

lemma sync_answers_fold:
  assumes "distinct (map a_id (tbl @ news))"
  shows "\<exists>tbl' new'.
    fold (upsert_answer now r A m qs) xs (tbl, news) = (tbl', news @ new') \<and>
    map a_ident tbl' = map a_ident tbl \<and>
    distinct (map a_id (tbl' @ news @ new')) \<and>
    (\<forall>a\<in>set new'. \<exists>sa\<in>set xs. added_for r A m qs sa a \<and>
        find (matches r (a_question_id a) sa) tbl = None) \<and>
    (distinct (map as_id xs) \<longrightarrow>
       (\<forall>sa\<in>set xs. \<forall>q. as_question_id sa \<in> A \<longrightarrow> deref m qs (as_question_id sa) = Some q \<longrightarrow>
          q_id q \<noteq> 0 \<longrightarrow>
          (case find (matches r (q_id q) sa) tbl' of
             Some e \<Rightarrow> a_answer_text e = as_answer_text sa
           | None \<Rightarrow> (\<exists>a\<in>set new'. added_for r A m qs sa a)))) \<and>
    (\<forall>a\<in>set tbl. (\<forall>sa\<in>set xs. a_staging_id a \<noteq> Some (as_id sa)) \<longrightarrow> a \<in> set tbl') \<and>
    (\<forall>sa0 k. as_id sa0 \<notin> as_id ` set xs \<longrightarrow>
        find (matches r k sa0) tbl' = find (matches r k sa0) tbl) \<and>
    (\<forall>a'\<in>set tbl'. a' \<in> set tbl \<or> (\<exists>sa\<in>set xs. a_staging_id a' = Some (as_id sa)))"
  using assms
proof (induction xs arbitrary: tbl news)
  case Nil
  then show ?case by simp
next
  case (Cons sa rest)
  let ?P = "\<lambda>tbl0 tbl' new' ys.
    map a_ident tbl' = map a_ident tbl0 \<and>
    (\<forall>a\<in>set new'. \<exists>sa\<in>set ys. added_for r A m qs sa a \<and>
        find (matches r (a_question_id a) sa) tbl0 = None) \<and>
    (distinct (map as_id ys) \<longrightarrow>
       (\<forall>sa\<in>set ys. \<forall>q. as_question_id sa \<in> A \<longrightarrow> deref m qs (as_question_id sa) = Some q \<longrightarrow>
          q_id q \<noteq> 0 \<longrightarrow>
          (case find (matches r (q_id q) sa) tbl' of
             Some e \<Rightarrow> a_answer_text e = as_answer_text sa
           | None \<Rightarrow> (\<exists>a\<in>set new'. added_for r A m qs sa a)))) \<and>
    (\<forall>a\<in>set tbl0. (\<forall>sa\<in>set ys. a_staging_id a \<noteq> Some (as_id sa)) \<longrightarrow> a \<in> set tbl') \<and>
    (\<forall>sa0 k. as_id sa0 \<notin> as_id ` set ys \<longrightarrow>
        find (matches r k sa0) tbl' = find (matches r k sa0) tbl0)"
  let ?R = "\<lambda>tbl0 tbl' ys.
    (\<forall>a'\<in>set tbl'. a' \<in> set tbl0 \<or> (\<exists>sa\<in>set ys. a_staging_id a' = Some (as_id sa)))"
  show ?case
  proof (cases rule: upsert_answer_cases [of sa A m qs now r tbl news])
    case skip
    from Cons.IH [OF Cons.prems] obtain tbl' new' where
      f: "fold (upsert_answer now r A m qs) rest (tbl, news) = (tbl', news @ new')"
      and d: "distinct (map a_id (tbl' @ news @ new'))"
      and P: "?P tbl tbl' new' rest" and R: "?R tbl tbl' rest" by blast
    have "fold (upsert_answer now r A m qs) (sa # rest) (tbl, news) = (tbl', news @ new')"
      using skip(2) f by simp
    moreover have "?P tbl tbl' new' (sa # rest)"
      using P skip(1) by (auto split: option.splits)
    moreover have "?R tbl tbl' (sa # rest)" using R by auto
    ultimately show ?thesis using d by blast
  next
    case (update q e)
    let ?F = "\<lambda>a. a\<lparr>a_answer_text := as_answer_text sa, a_updated_at := now\<rparr>"
    let ?g = "\<lambda>a. if a_id a = a_id e then ?F a else a"
    let ?tbl1 = "update_answer (a_id e) ?F tbl"
    have idF: "\<And>a. a_ident (?F a) = a_ident a" by (simp add: a_ident_def)
    have id1: "map a_ident ?tbl1 = map a_ident tbl" using idF by (rule a_ident_update_answer)
    have dt: "distinct (map a_id tbl)" using Cons.prems by simp
    have e: "e \<in> set tbl" "matches r (q_id q) sa e" using find_SomeD [OF update(4)] by auto
    have uniq: "\<And>x. x \<in> set tbl \<Longrightarrow> a_id x = a_id e \<Longrightarrow> x = e"
      using dt e(1) by (metis distinct_map inj_onD)
    have d1: "distinct (map a_id (?tbl1 @ news))"
      using Cons.prems a_ident_a_id [OF id1] by simp
    have fnd: "\<And>k sa0. find (matches r k sa0) ?tbl1 = map_option ?g (find (matches r k sa0) tbl)"
      using find_update_answer [of ?F r _ _ "a_id e" tbl] idF by blast
    from Cons.IH [OF d1] obtain tbl' new' where
      f: "fold (upsert_answer now r A m qs) rest (?tbl1, news) = (tbl', news @ new')"
      and d: "distinct (map a_id (tbl' @ news @ new'))"
      and P: "?P ?tbl1 tbl' new' rest" and R: "?R ?tbl1 tbl' rest" by blast
    have a: "fold (upsert_answer now r A m qs) (sa # rest) (tbl, news) = (tbl', news @ new')"
      using update(5) f by simp
    have p6: "?R tbl tbl' (sa # rest)"
    proof
      fix a' assume "a' \<in> set tbl'"
      then consider "a' \<in> set ?tbl1" | "\<exists>sa\<in>set rest. a_staging_id a' = Some (as_id sa)"
        using R by blast
      then show "a' \<in> set tbl \<or> (\<exists>sa'\<in>set (sa # rest). a_staging_id a' = Some (as_id sa'))"
      proof cases
        case 1
        then obtain a0 where a0: "a0 \<in> set tbl" "a' = ?g a0" by (auto simp: update_answer_def)
        show ?thesis
        proof (cases "a_id a0 = a_id e")
          case True
          then have "a0 = e" using uniq a0(1) by blast
          then show ?thesis using a0(2) e(2) by (simp add: matches_def)
        next
          case False
          then show ?thesis using a0 by simp
        qed
      next
        case 2
        then show ?thesis by auto
      qed
    qed
    have p1: "map a_ident tbl' = map a_ident tbl" using P id1 by simp
    have p2: "\<forall>a\<in>set new'. \<exists>sa'\<in>set (sa # rest). added_for r A m qs sa' a \<and>
        find (matches r (a_question_id a) sa') tbl = None"
    proof
      fix a assume "a \<in> set new'"
      then obtain sa' where "sa' \<in> set rest" "added_for r A m qs sa' a"
        "find (matches r (a_question_id a) sa') ?tbl1 = None" using P by blast
      then show "\<exists>sa'\<in>set (sa # rest). added_for r A m qs sa' a \<and>
        find (matches r (a_question_id a) sa') tbl = None"
        using fnd by (intro bexI [of _ sa']) auto
    qed
    have frame: "\<And>sa0 k. as_id sa0 \<noteq> as_id sa \<Longrightarrow>
        find (matches r k sa0) ?tbl1 = find (matches r k sa0) tbl"
    proof -
      fix sa0 :: answer_staging and k assume ne: "as_id sa0 \<noteq> as_id sa"
      show "find (matches r k sa0) ?tbl1 = find (matches r k sa0) tbl"
      proof (cases "find (matches r k sa0) tbl")
        case None then show ?thesis using fnd by simp
      next
        case (Some x)
        have x: "x \<in> set tbl" "matches r k sa0 x" using find_SomeD [OF Some] by auto
        have "x \<noteq> e" using x(2) e(2) ne by (auto simp: matches_def)
        then have "a_id x \<noteq> a_id e" using uniq x(1) by blast
        then show ?thesis using fnd Some by simp
      qed
    qed
    have p3: "distinct (map as_id (sa # rest)) \<longrightarrow>
       (\<forall>sa'\<in>set (sa # rest). \<forall>q. as_question_id sa' \<in> A \<longrightarrow> deref m qs (as_question_id sa') = Some q \<longrightarrow>
          q_id q \<noteq> 0 \<longrightarrow>
          (case find (matches r (q_id q) sa') tbl' of
             Some e \<Rightarrow> a_answer_text e = as_answer_text sa'
           | None \<Rightarrow> (\<exists>a\<in>set new'. added_for r A m qs sa' a)))"
    proof
      assume dist: "distinct (map as_id (sa # rest))"
      then have nin: "as_id sa \<notin> as_id ` set rest" and dr: "distinct (map as_id rest)" by auto
      have "find (matches r (q_id q) sa) tbl' = find (matches r (q_id q) sa) ?tbl1"
        using P nin by blast
      also have "\<dots> = Some (?F e)" using fnd update(4) by simp
      finally have hd: "\<forall>q'. deref m qs (as_question_id sa) = Some q' \<longrightarrow>
          (case find (matches r (q_id q') sa) tbl' of
             Some e \<Rightarrow> a_answer_text e = as_answer_text sa
           | None \<Rightarrow> (\<exists>a\<in>set new'. added_for r A m qs sa a))"
        using update(2) by simp
      show "\<forall>sa'\<in>set (sa # rest). \<forall>q. as_question_id sa' \<in> A \<longrightarrow> deref m qs (as_question_id sa') = Some q \<longrightarrow>
          q_id q \<noteq> 0 \<longrightarrow>
          (case find (matches r (q_id q) sa') tbl' of
             Some e \<Rightarrow> a_answer_text e = as_answer_text sa'
           | None \<Rightarrow> (\<exists>a\<in>set new'. added_for r A m qs sa' a))"
        using hd P dr by simp
    qed
    have p4: "\<forall>a\<in>set tbl. (\<forall>sa'\<in>set (sa # rest). a_staging_id a \<noteq> Some (as_id sa')) \<longrightarrow> a \<in> set tbl'"
    proof (intro ballI impI)
      fix a assume a: "a \<in> set tbl" "\<forall>sa'\<in>set (sa # rest). a_staging_id a \<noteq> Some (as_id sa')"
      have "a \<noteq> e" using a(2) e(2) by (auto simp: matches_def)
      then have "a_id a \<noteq> a_id e" using uniq a(1) by blast
      then have "a \<in> set ?tbl1" using a(1) by (rule update_answer_mem [rotated])
      then show "a \<in> set tbl'" using P a(2) by simp
    qed
    have p5: "\<forall>sa0 k. as_id sa0 \<notin> as_id ` set (sa # rest) \<longrightarrow>
        find (matches r k sa0) tbl' = find (matches r k sa0) tbl"
      using P frame by simp
    show ?thesis using a d p1 p2 p3 p4 p5 p6 by blast
  next
    case (create q)
    let ?new = "\<lparr>a_id = next_id (map a_id (tbl @ news)), a_run_id = r,
                         a_question_id = q_id q, a_staging_id = Some (as_id sa),
                         a_answer_text = as_answer_text sa,
                         a_created_at = now, a_updated_at = now\<rparr>"
    have d1: "distinct (map a_id (tbl @ (news @ [?new])))"
      using Cons.prems next_id_fresh [of "map a_id (tbl @ news)"] by simp
    have add: "added_for r A m qs sa ?new"
      using create(1,2,3) by (simp add: added_for_def)
    from Cons.IH [OF d1] obtain tbl' new' where
      f: "fold (upsert_answer now r A m qs) rest (tbl, news @ [?new]) = (tbl', (news @ [?new]) @ new')"
      and d: "distinct (map a_id (tbl' @ (news @ [?new]) @ new'))"
      and P: "?P tbl tbl' new' rest" and R: "?R tbl tbl' rest" by blast
    have p6: "?R tbl tbl' (sa # rest)" using R by auto
    have a: "fold (upsert_answer now r A m qs) (sa # rest) (tbl, news) = (tbl', news @ (?new # new'))"
      using create(5) f by simp
    have d': "distinct (map a_id (tbl' @ news @ (?new # new')))" using d by simp
    have p2: "\<forall>a\<in>set (?new # new'). \<exists>sa'\<in>set (sa # rest). added_for r A m qs sa' a \<and>
        find (matches r (a_question_id a) sa') tbl = None"
      using P add create(4) by auto
    have p3: "distinct (map as_id (sa # rest)) \<longrightarrow>
       (\<forall>sa'\<in>set (sa # rest). \<forall>q. as_question_id sa' \<in> A \<longrightarrow> deref m qs (as_question_id sa') = Some q \<longrightarrow>
          q_id q \<noteq> 0 \<longrightarrow>
          (case find (matches r (q_id q) sa') tbl' of
             Some e \<Rightarrow> a_answer_text e = as_answer_text sa'
           | None \<Rightarrow> (\<exists>a\<in>set (?new # new'). added_for r A m qs sa' a)))"
    proof
      assume dist: "distinct (map as_id (sa # rest))"
      then have nin: "as_id sa \<notin> as_id ` set rest" and dr: "distinct (map as_id rest)" by auto
      have "find (matches r (q_id q) sa) tbl' = None"
        using P nin create(4) by simp
      then have hd: "\<forall>q'. deref m qs (as_question_id sa) = Some q' \<longrightarrow>
          (case find (matches r (q_id q') sa) tbl' of
             Some e \<Rightarrow> a_answer_text e = as_answer_text sa
           | None \<Rightarrow> (\<exists>a\<in>set (?new # new'). added_for r A m qs sa a))"
        using create(2) add by simp
      have tl: "\<forall>sa'\<in>set rest. \<forall>q. as_question_id sa' \<in> A \<longrightarrow> deref m qs (as_question_id sa') = Some q \<longrightarrow>
          q_id q \<noteq> 0 \<longrightarrow>
          (case find (matches r (q_id q) sa') tbl' of
             Some e \<Rightarrow> a_answer_text e = as_answer_text sa'
           | None \<Rightarrow> (\<exists>a\<in>set (?new # new'). added_for r A m qs sa' a))"
      proof (intro ballI allI impI)
        fix sa' q'
        assume h: "sa' \<in> set rest" "as_question_id sa' \<in> A"
          "deref m qs (as_question_id sa') = Some q'" "q_id q' \<noteq> 0"
        have "case find (matches r (q_id q') sa') tbl' of
             Some e \<Rightarrow> a_answer_text e = as_answer_text sa'
           | None \<Rightarrow> (\<exists>a\<in>set new'. added_for r A m qs sa' a)"
          using P dr h by blast
        then show "case find (matches r (q_id q') sa') tbl' of
             Some e \<Rightarrow> a_answer_text e = as_answer_text sa'
           | None \<Rightarrow> (\<exists>a\<in>set (?new # new'). added_for r A m qs sa' a)"
          by (cases "find (matches r (q_id q') sa') tbl'") auto
      qed
      show "\<forall>sa'\<in>set (sa # rest). \<forall>q. as_question_id sa' \<in> A \<longrightarrow> deref m qs (as_question_id sa') = Some q \<longrightarrow>
          q_id q \<noteq> 0 \<longrightarrow>
          (case find (matches r (q_id q) sa') tbl' of
             Some e \<Rightarrow> a_answer_text e = as_answer_text sa'
           | None \<Rightarrow> (\<exists>a\<in>set (?new # new'). added_for r A m qs sa' a))"
        using hd tl by simp
    qed
    have p4: "\<forall>a\<in>set tbl. (\<forall>sa'\<in>set (sa # rest). a_staging_id a \<noteq> Some (as_id sa')) \<longrightarrow> a \<in> set tbl'"
      using P by simp
    have p5: "\<forall>sa0 k. as_id sa0 \<notin> as_id ` set (sa # rest) \<longrightarrow>
        find (matches r k sa0) tbl' = find (matches r k sa0) tbl"
      using P by simp
    have p1: "map a_ident tbl' = map a_ident tbl" using P by simp
    show ?thesis using a d' p1 p2 p3 p4 p5 p6 by blast
  qed
qed

lemma fold_insert_if:
  "fold (\<lambda>a acc. if P a then insert (f a) acc else acc) xs S = S \<union> f ` {a \<in> set xs. P a}"
  by (induction xs arbitrary: S) auto

lemma with_answers_eq:
  "approved_questions_with_answers r db =
     {s \<in> approved_staging_question_ids r db. \<exists>a\<in>set (approved_answers r db). as_question_id a = s}"
  unfolding approved_questions_with_answers_def fold_insert_if by auto

lemma with_answers_subset:
  "s \<in> approved_questions_with_answers r db \<Longrightarrow> s \<in> approved_staging_question_ids r db"
  by (simp add: with_answers_eq)

lemma get_question_ident:
  "map_option q_staging_id (get_question k qs) =
     map_option (\<lambda>i. snd (snd i)) (find (\<lambda>i. fst i = k) (map ident qs))"
  unfolding get_question_def by (induction qs) (auto simp: ident_def)

lemma should_delete_cong:
  assumes "map ident qs = map ident qs'"
  shows "should_delete A Aa qs a = should_delete A Aa qs' a"
proof -
  have "map_option q_staging_id (get_question k qs) = map_option q_staging_id (get_question k qs')" for k
    by (simp add: get_question_ident assms)
  then have "(case get_question k qs of None \<Rightarrow> False
              | Some actual_q \<Rightarrow> (case q_staging_id actual_q of None \<Rightarrow> False | Some s \<Rightarrow> s \<noteq> 0 \<and> s \<notin> A)) =
             (case get_question k qs' of None \<Rightarrow> False
              | Some actual_q \<Rightarrow> (case q_staging_id actual_q of None \<Rightarrow> False | Some s \<Rightarrow> s \<noteq> 0 \<and> s \<notin> A))" for k
  proof -
    have e: "map_option q_staging_id (get_question k qs) = map_option q_staging_id (get_question k qs')"
      by fact
    show ?thesis
    proof (cases "get_question k qs")
      case None
      then have "get_question k qs' = None" using e by simp
      then show ?thesis using None by simp
    next
      case (Some q)
      then obtain q' where q': "get_question k qs' = Some q'" using e by (cases "get_question k qs'") auto
      then have "q_staging_id q = q_staging_id q'" using e Some by simp
      then show ?thesis using Some q' by simp
    qed
  qed
  then show ?thesis unfolding should_delete_def by simp
qed

lemma reconcile_eq:
  assumes "fold (upsert_question now r (approved_questions_with_answers r db)) (approved_questions r db)
             (questions db, staging_to_actual_question r (questions db), 0) = (qs2, m2, n2)"
    and "fold (upsert_answer now r (approved_staging_question_ids r db) m2 qs2) (approved_answers r db)
             (answers db, []) = (tbl, news)"
  shows "reconcile now r db =
     (n2 + length (filter (\<lambda>q. stale r (approved_staging_question_ids r db)
                                 (approved_questions_with_answers r db) q \<and> q_is_approved q) qs2),
      db\<lparr>questions :=
           map (\<lambda>q. if stale r (approved_staging_question_ids r db)
                          (approved_questions_with_answers r db) q
                     then q\<lparr>q_is_approved := False, q_updated_at := now\<rparr> else q) qs2,
         answers :=
           filter (\<lambda>a. \<not> (a_run_id a = r \<and>
                          should_delete (approved_staging_question_ids r db)
                            (approved_staging_answer_ids r db) qs2 a)) tbl @ news,
         runs := update_run r (\<lambda>r. r\<lparr>r_last_sync_at := Some now, r_updated_at := now\<rparr>) (runs db)\<rparr>)"
proof -
  let ?d = "map (\<lambda>q. if stale r (approved_staging_question_ids r db)
                          (approved_questions_with_answers r db) q
                     then q\<lparr>q_is_approved := False, q_updated_at := now\<rparr> else q) qs2"
  have "map ident ?d = map ident qs2" by (rule ident_demote)
  then have "should_delete (approved_staging_question_ids r db) (approved_staging_answer_ids r db) ?d a =
        should_delete (approved_staging_question_ids r db) (approved_staging_answer_ids r db) qs2 a" for a
    by (rule should_delete_cong)
  then have sd: "(\<lambda>a. \<not> (a_run_id a = r \<and>
          should_delete (approved_staging_question_ids r db) (approved_staging_answer_ids r db) ?d a)) =
        (\<lambda>a. \<not> (a_run_id a = r \<and>
          should_delete (approved_staging_question_ids r db) (approved_staging_answer_ids r db) qs2 a))"
    by simp
  show ?thesis
    unfolding reconcile_def Let_def assms prod.case demote_questions_eq sd ..
qed

lemma flush_clean:
  "pending s = [] \<Longrightarrow> marked s = [] \<Longrightarrow> flush s = s\<lparr>store := work s\<rparr>"
  by (simp add: flush_def Let_def)

lemma sync_question_step:
  assumes "pending s = []" "marked s = []"
  shows "\<exists>s1. sync_question now r W sq (s, m, n) =
             (s1, snd (upsert_question now r W sq (questions (work s), m, n))) \<and>
           work s1 = (work s)\<lparr>questions := fst (upsert_question now r W sq (questions (work s), m, n))\<rparr> \<and>
           pending s1 = [] \<and> marked s1 = [] \<and> committed s1 = committed s"
  using assms
  by (cases "upsert_question now r W sq (questions (work s), m, n)")
     (simp add: sync_question_def Let_def flush_clean split: option.splits)

lemma fold_sync_question:
  assumes "pending s = []" "marked s = []"
  shows "work (fst (fold (sync_question now r W) xs (s, m, n))) =
           (work s)\<lparr>questions := fst (fold (upsert_question now r W) xs (questions (work s), m, n))\<rparr> \<and>
         snd (fold (sync_question now r W) xs (s, m, n)) =
           snd (fold (upsert_question now r W) xs (questions (work s), m, n)) \<and>
         pending (fst (fold (sync_question now r W) xs (s, m, n))) = [] \<and>
         marked (fst (fold (sync_question now r W) xs (s, m, n))) = [] \<and>
         committed (fst (fold (sync_question now r W) xs (s, m, n))) = committed s"
  using assms
proof (induction xs arbitrary: s m n)
  case Nil
  then show ?case by simp
next
  case (Cons sq xs)
  obtain qs1 m1 n1 where u: "upsert_question now r W sq (questions (work s), m, n) = (qs1, m1, n1)"
    by (metis prod_cases3)
  from sync_question_step [OF Cons.prems, of now r W sq m n] u
  obtain s1 where s1: "sync_question now r W sq (s, m, n) = (s1, m1, n1)"
    and w1: "work s1 = (work s)\<lparr>questions := qs1\<rparr>"
    and p1: "pending s1 = []" "marked s1 = []" and c1: "committed s1 = committed s"
    by auto
  have q1: "questions (work s1) = qs1" using w1 by simp
  have w2: "(work s1)\<lparr>questions := X\<rparr> = (work s)\<lparr>questions := X\<rparr>" for X
    using w1 by simp
  show ?case
    using Cons.IH [OF p1, of m1 n1] by (simp add: s1 u q1 w2 c1)
qed

lemma fold_sync_answer:
  "fold (sync_answer now r A m) xs s =
     s\<lparr>work := (work s)\<lparr>answers :=
                 fst (fold (upsert_answer now r A m (questions (work s))) xs (answers (work s), pending s))\<rparr>,
       pending := snd (fold (upsert_answer now r A m (questions (work s))) xs (answers (work s), pending s))\<rparr>"
proof (induction xs arbitrary: s)
  case Nil
  show ?case by simp
next
  case (Cons sa xs)
  obtain tbl news where u: "upsert_answer now r A m (questions (work s)) sa (answers (work s), pending s) = (tbl, news)"
    by (metis surj_pair)
  have s1: "sync_answer now r A m sa s = s\<lparr>work := (work s)\<lparr>answers := tbl\<rparr>, pending := news\<rparr>"
    by (simp add: sync_answer_def u)
  show ?case
    by (simp add: Cons.IH s1 u)
qed

lemma committed_flush: "committed (flush s) = committed s"
  by (simp add: flush_def Let_def)

lemma committed_sync_question:
  "committed (fst (sync_question now r W sq st)) = committed (fst st)"
  by (cases st) (simp add: sync_question_def Let_def committed_flush split: prod.splits option.splits)

lemma committed_fold_sync_question:
  "committed (fst (fold (sync_question now r W) xs st)) = committed (fst st)"
  by (induction xs arbitrary: st) (simp_all add: committed_sync_question)

lemma committed_fold_sync_answer:
  "committed (fold (sync_answer now r A m) xs s) = committed s"
  by (simp add: fold_sync_answer)

lemma committed_sync_demotions:
  "committed (fst (sync_demotions now r A W st)) = committed (fst st)"
  by (cases st) (simp add: sync_demotions_def split: prod.splits)

lemma committed_sync_deletions:
  "committed (sync_deletions fault r A Aa s) = committed s"
  by (simp add: sync_deletions_def)

lemma rollback_open: "rollback s = open_session (committed s)"
  by (simp add: rollback_def open_session_def)

lemma filter_marked:
  "filter (\<lambda>a. a \<notin> set (filter P (filter Q xs))) xs = filter (\<lambda>a. \<not> (Q a \<and> P a)) xs"
  by (rule filter_cong) auto

lemma try_body_raise:
  assumes "step \<noteq> Respond"
  shows "fst (try_body (Some (step, k, e)) now r s0) = Inl e \<and>
         committed (snd (try_body (Some (step, k, e)) now r s0)) = committed s0"
  using assms
  by (cases step)
     (simp_all add: try_body_def raised_def Let_def case_prod_beta committed_flush
        committed_fold_sync_question committed_fold_sync_answer committed_sync_demotions
        committed_sync_deletions)

lemma try_body_pass:
  assumes "fault = None \<or> (\<exists>k e. fault = Some (Respond, k, e))"
  shows "store (snd (try_body fault now r (open_session db))) = snd (reconcile now r db) \<and>
         committed (snd (try_body fault now r (open_session db))) = snd (reconcile now r db) \<and>
         fst (try_body fault now r (open_session db)) =
           (case fault of
              None \<Rightarrow> Inr \<lparr>message = ''Sync completed successfully'', last_sync_at = now,
                           questions_synced = fst (reconcile now r db)\<rparr>
            | Some (step, k, e) \<Rightarrow> Inl e)"
proof -
  let ?A = "approved_staging_question_ids r db"
  let ?Aa = "approved_staging_answer_ids r db"
  let ?W = "approved_questions_with_answers r db"
  let ?s0 = "open_session db"
  let ?M = "staging_to_actual_question r (questions db)"
  have it: "iterations fault step xs = xs" if "step \<noteq> Respond" for step and xs :: "'a list"
    using assms that by (auto simp: iterations_def)
  have nr: "raised fault step = None" if "step \<noteq> Respond" for step
    using assms that by (auto simp: raised_def)
  have s0: "work ?s0 = db" "pending ?s0 = []" "marked ?s0 = []" "committed ?s0 = db"
    by (simp_all add: open_session_def)
  obtain qs2 m n2 where u: "fold (upsert_question now r ?W) (approved_questions r db) (questions db, ?M, 0) = (qs2, m, n2)"
    by (metis prod_cases3)
  obtain s2 where f2: "fold (sync_question now r ?W) (approved_questions r db) (?s0, ?M, 0) = (s2, m, n2)"
    and w2: "work s2 = db\<lparr>questions := qs2\<rparr>" and p2: "pending s2 = []" "marked s2 = []"
    using fold_sync_question [of ?s0 now r ?W "approved_questions r db" ?M 0] u s0
    by (cases "fold (sync_question now r ?W) (approved_questions r db) (?s0, ?M, 0)") auto
  obtain tbl news where g: "fold (upsert_answer now r ?A m qs2) (approved_answers r db) (answers db, []) = (tbl, news)"
    by (metis surj_pair)
  define s3 where "s3 = fold (sync_answer now r ?A m) (approved_answers r db) s2"
  have w3: "work s3 = db\<lparr>questions := qs2, answers := tbl\<rparr>" and p3: "pending s3 = news" "marked s3 = []"
    unfolding s3_def fold_sync_answer by (simp_all add: w2 p2 g)
  obtain qs4 n4 where d: "demote_questions now r ?A ?W qs2 n2 = (qs4, n4)"
    by (metis surj_pair)
  define s4 where "s4 = fst (sync_demotions now r ?A ?W (s3, n2))"
  have sd: "sync_demotions now r ?A ?W (s3, n2) = (s4, n4)"
    and w4: "work s4 = db\<lparr>questions := qs4, answers := tbl\<rparr>" and p4: "pending s4 = news" "marked s4 = []"
    unfolding s4_def by (simp_all add: sync_demotions_def w3 p3 d)
  define s5 where "s5 = sync_deletions fault r ?A ?Aa s4"
  have w5: "work s5 = db\<lparr>questions := qs4, answers := tbl\<rparr>" and p5: "pending s5 = news"
    and m5: "marked s5 = filter (should_delete ?A ?Aa qs4) (filter (\<lambda>a. a_run_id a = r) tbl)"
    unfolding s5_def by (simp_all add: sync_deletions_def w4 p4 it)
  define s6 where "s6 = s5\<lparr>work := (work s5)\<lparr>runs := update_run r
      (\<lambda>r. r\<lparr>r_last_sync_at := Some now, r_updated_at := now\<rparr>) (runs (work s5))\<rparr>\<rparr>"
  have fm: "filter (\<lambda>a. a \<notin> set (marked s5)) tbl =
      filter (\<lambda>a. \<not> (a_run_id a = r \<and> should_delete ?A ?Aa qs4 a)) tbl"
    unfolding m5 by (rule filter_marked)
  have s6: "work s6 = db\<lparr>questions := qs4, answers := tbl,
        runs := update_run r (\<lambda>r. r\<lparr>r_last_sync_at := Some now, r_updated_at := now\<rparr>) (runs db)\<rparr>"
      "pending s6 = news" "marked s6 = marked s5"
    by (simp_all add: s6_def w5 p5)
  have fl: "store (flush s6) = snd (reconcile now r db)"
    unfolding flush_def Let_def s6
    by (simp add: fm reconcile_def Let_def u g d del: set_filter)
  have st: "store (commit s6) = snd (reconcile now r db)" "committed (commit s6) = snd (reconcile now r db)"
    by (simp_all add: commit_def Let_def fl)
  have n: "fst (reconcile now r db) = n4"
    by (simp add: reconcile_def Let_def u g d)
  have tb: "try_body fault now r ?s0 =
      (case raised fault Respond of Some e \<Rightarrow> (Inl e, commit s6)
       | None \<Rightarrow> (Inr \<lparr>message = ''Sync completed successfully'', last_sync_at = now,
                         questions_synced = n4\<rparr>, commit s6))"
    unfolding try_body_def
    by (cases "raised fault Respond")
       (simp_all add: nr it s0 f2 Let_def s3_def [symmetric] sd s6_def s5_def)
  show ?thesis
    using assms by (auto simp: tb st n raised_def)
qed

lemma sync_to_actual_eq:
  "sync_to_actual fault now r db =
     (case get_run r db of
        None \<Rightarrow> (Inl (HTTPException 404 ''Run not found''), db)
      | Some run \<Rightarrow>
         (case fault of
            None \<Rightarrow> (Inr \<lparr>message = ''Sync completed successfully'', last_sync_at = now,
                         questions_synced = fst (reconcile now r db)\<rparr>, snd (reconcile now r db))
          | Some (step, k, e) \<Rightarrow>
              (Inl (HTTPException 500 (''Error syncing to actual tables: '' @ e)),
               if step = Respond then snd (reconcile now r db) else db)))"
proof (cases "get_run r db")
  case None
  then show ?thesis by (simp add: sync_to_actual_def)
next
  case (Some run)
  show ?thesis
  proof (cases fault)
    case None
    obtain res s where t: "try_body None now r (open_session db) = (res, s)" by (metis surj_pair)
    from try_body_pass [of None now r db] t
    have "store s = snd (reconcile now r db)"
      "res = Inr \<lparr>message = ''Sync completed successfully'', last_sync_at = now,
                           questions_synced = fst (reconcile now r db)\<rparr>" by simp_all
    then show ?thesis using Some None t by (simp add: sync_to_actual_def)
  next
    case (Some f)
    obtain step k e where f: "f = (step, k, e)" by (metis prod_cases3)
    obtain res s where t: "try_body (Some (step, k, e)) now r (open_session db) = (res, s)" by (metis surj_pair)
    show ?thesis
    proof (cases "step = Respond")
      case True
      from try_body_pass [of "Some (step, k, e)" now r db] t True
      have "committed s = snd (reconcile now r db)" "res = Inl e" by simp_all
      then show ?thesis using \<open>get_run r db = Some run\<close> Some f t True
        by (simp add: sync_to_actual_def rollback_def)
    next
      case False
      from try_body_raise [OF False, of k e now r "open_session db"] t
      have "committed s = db" "res = Inl e" by (simp_all add: open_session_def)
      then show ?thesis using \<open>get_run r db = Some run\<close> Some f t False
        by (simp add: sync_to_actual_def rollback_def)
    qed
  qed
qed

lemmas sync_eval_defs =
  sync_to_actual_eq reconcile_def get_run_def approved_questions_def approved_answers_def
  approved_staging_question_ids_def approved_staging_answer_ids_def
  approved_questions_with_answers_def staging_to_actual_question_def deref_def
  get_question_def upsert_question_def upsert_answer_def update_question_def update_answer_def
  demote_question_def should_delete_def update_run_def next_id_def Let_def

lemma seeded_sync:
  "sync_to_actual None 9 ''r'' seeded_db =
     (Inr \<lparr>message = ''Sync completed successfully'', last_sync_at = 9, questions_synced = 1\<rparr>,
      seeded_db_synced)"
  by (simp add: sync_eval_defs seeded_db_def seeded_db_synced_def demo_run_def)

lemma lost_answer_sync:
  "sync_to_actual None 9 ''r'' lost_answer_db =
     (Inr \<lparr>message = ''Sync completed successfully'', last_sync_at = 9, questions_synced = 1\<rparr>,
      lost_answer_db_synced)"
  by (simp add: sync_eval_defs lost_answer_db_def lost_answer_db_synced_def demo_run_def)

lemma upsert_question_ident:
  "\<exists>new. map ident (fst (upsert_question now r W sq (qs, m, n))) = map ident qs @ new"
  by (auto simp: upsert_question_def Let_def ident_update_question ident_def split: option.splits)

lemma sync_questions_ident:
  "\<exists>new. map ident (fst (fold (upsert_question now r W) xs st)) = map ident (fst st) @ new"
proof (induction xs arbitrary: st)
  case Nil
  show ?case by simp
next
  case (Cons sq rest)
  obtain qs m n where st: "st = (qs, m, n)" by (cases st) auto
  obtain new1 where n1: "map ident (fst (upsert_question now r W sq st)) = map ident qs @ new1"
    using upsert_question_ident [of now r W sq qs m n] st by auto
  obtain new2 where "map ident (fst (fold (upsert_question now r W) rest (upsert_question now r W sq st)))
       = map ident (fst (upsert_question now r W sq st)) @ new2"
    using Cons.IH by blast
  then show ?case using n1 st by auto
qed

lemma reconcile_frame:
  "question_staging (snd (reconcile now r db)) = question_staging db \<and>
   answer_staging (snd (reconcile now r db)) = answer_staging db \<and>
   tags (snd (reconcile now r db)) = tags db \<and>
   map r_id (runs (snd (reconcile now r db))) = map r_id (runs db)"
  by (simp add: reconcile_def Let_def update_run_def split: prod.splits)

lemma reconcile_ident:
  "\<exists>new. map ident (questions (snd (reconcile now r db))) = map ident (questions db) @ new"
proof -
  obtain qs2 m2 n2 where f: "fold (upsert_question now r (approved_questions_with_answers r db))
        (approved_questions r db) (questions db, staging_to_actual_question r (questions db), 0)
        = (qs2, m2, n2)" by (metis prod_cases3)
  obtain tbl news where g: "fold (upsert_answer now r (approved_staging_question_ids r db) m2 qs2)
        (approved_answers r db) (answers db, []) = (tbl, news)" by (metis surj_pair)
  obtain new where "map ident qs2 = map ident (questions db) @ new"
    using sync_questions_ident [of now r "approved_questions_with_answers r db" "approved_questions r db"
        "(questions db, staging_to_actual_question r (questions db), 0)"] f by auto
  moreover have "map ident (questions (snd (reconcile now r db))) = map ident qs2"
    unfolding reconcile_eq [OF f g] by (simp add: ident_def comp_def)
  ultimately show ?thesis by auto
qed

section \<open>The change signal of the staging mutations\<close>

text \<open>
  C6. Every staging mutation should set the run's \<^verbatim>\<open>last_staging_change_at\<close> to the current
  time. The two generation endpoints create staging rows (and \<^verbatim>\<open>generate_answers\<close> also
  deletes rejected ones) but never touch the \<^verbatim>\<open>runs\<close> table: whatever the inputs, the
  runs are exactly as before, so the signal keeps its old value.
\<close>

theorem generation_leaves_run_untouched:
  "runs (snd (generate_questions llm now run_id num_questions db)) = runs db \<and>
   runs (snd (generate_answers llm now run_id db)) = runs db"
  by (simp add: generate_questions_def generate_answers_def Let_def
           split: option.splits sum.splits prod.splits)

theorem generation_leaves_run_untouched_witness:
  "map qs_created_at
     (question_staging (snd (generate_questions (Some demo_llm) 9 ''r'' 1 demo_db))) = [9] \<and>
   map r_last_staging_change_at
     (runs (snd (generate_questions (Some demo_llm) 9 ''r'' 1 demo_db))) = [Some 5]"
proof -
  have "runs (snd (generate_questions (Some demo_llm) 9 ''r'' 1 demo_db)) = runs demo_db"
    using generation_leaves_run_untouched [of "Some demo_llm" 9 "''r''" 1 demo_db]
    by (rule conjunct1)
  then show ?thesis
    by (simp add: generate_questions_def get_run_def demo_db_def demo_run_def demo_llm_def
          next_id_def Let_def)
qed

text \<open>
  C10. A sync pass never deletes a published question. Whatever the state and however
  the request ends, the rows of \<^verbatim>\<open>questions\<close> it found are still there afterwards, in place,
  with their key, run and staging link; the staging tables and the tags are untouched. A
  stale question is only demoted: when the pass succeeds, no question of the run whose
  (truthy) link names no approved staging question with an approved answer has the flag
  set afterwards, be it that the staging question is not approved or that it is approved
  and has no approved answer. In the first case, on a table with distinct keys, the
  question is the same row with the flag cleared and \<^verbatim>\<open>updated_at\<close> stamped, and nothing
  else changed; in the second the pass has also rewritten its text and tags from the
  staging question.
\<close>

theorem sync_never_deletes_questions:
  assumes "sync_to_actual fault now run_id db = (res, db')"
  shows "take (length (questions db)) (map ident (questions db')) = map ident (questions db) \<and>
         question_staging db' = question_staging db \<and>
         answer_staging db' = answer_staging db \<and>
         tags db' = tags db \<and>
         map r_id (runs db') = map r_id (runs db) \<and>
         (\<forall>q\<in>set (questions db). \<forall>result s.
            res = Inr result \<longrightarrow> distinct (map q_id (questions db)) \<longrightarrow>
            q_run_id q = run_id \<longrightarrow> q_staging_id q = Some s \<longrightarrow> s \<noteq> 0 \<longrightarrow>
            s \<notin> approved_staging_question_ids run_id db \<longrightarrow>
            q\<lparr>q_is_approved := False, q_updated_at := now\<rparr> \<in> set (questions db')) \<and>
         (\<forall>q\<in>set (questions db'). \<forall>result s.
            res = Inr result \<longrightarrow>
            q_run_id q = run_id \<longrightarrow> q_staging_id q = Some s \<longrightarrow> s \<noteq> 0 \<longrightarrow>
            s \<notin> approved_questions_with_answers run_id db \<longrightarrow>
            \<not> q_is_approved q)"
proof -
  have cases: "db' = db \<or> db' = snd (reconcile now run_id db)"
    using assms by (auto simp: sync_to_actual_eq split: option.splits if_splits)
  obtain new where new: "map ident (questions (snd (reconcile now run_id db))) = map ident (questions db) @ new"
    using reconcile_ident by blast
  have "length (map ident (questions db)) = length (questions db)" by simp
  then have "take (length (questions db)) (map ident (questions db) @ new) = map ident (questions db)"
    by (metis append_eq_conv_conj)
  then have a: "take (length (questions db)) (map ident (questions db')) = map ident (questions db)"
    using cases new by auto
  have b: "question_staging db' = question_staging db \<and> answer_staging db' = answer_staging db \<and>
         tags db' = tags db \<and> map r_id (runs db') = map r_id (runs db)"
    using cases reconcile_frame [of now run_id db] by auto
  have c: "\<forall>q\<in>set (questions db). \<forall>result s.
            res = Inr result \<longrightarrow> distinct (map q_id (questions db)) \<longrightarrow>
            q_run_id q = run_id \<longrightarrow> q_staging_id q = Some s \<longrightarrow> s \<noteq> 0 \<longrightarrow>
            s \<notin> approved_staging_question_ids run_id db \<longrightarrow>
            q\<lparr>q_is_approved := False, q_updated_at := now\<rparr> \<in> set (questions db')"
  proof (intro ballI allI impI)
    fix q result s
    assume q: "q \<in> set (questions db)" and ok: "res = Inr result"
      and d: "distinct (map q_id (questions db))"
      and r: "q_run_id q = run_id" and s: "q_staging_id q = Some s" "s \<noteq> 0"
        "s \<notin> approved_staging_question_ids run_id db"
    have db': "db' = snd (reconcile now run_id db)"
      using assms ok by (auto simp: sync_to_actual_eq split: option.splits if_splits)
    let ?A = "approved_staging_question_ids run_id db"
    let ?W = "approved_questions_with_answers run_id db"
    from sync_questions_fold [OF d, of now run_id ?W "approved_questions run_id db" 0]
    obtain qs2 n2 where
      f: "fold (upsert_question now run_id ?W) (approved_questions run_id db)
            (questions db, staging_to_actual_question run_id (questions db), 0) =
          (qs2, staging_to_actual_question run_id qs2, n2)"
      and keep: "\<forall>q\<in>set (questions db).
          \<not> (q_run_id q = run_id \<and> (\<exists>sq\<in>set (approved_questions run_id db). q_staging_id q = Some (qs_id sq)))
          \<longrightarrow> q \<in> set qs2"
      by blast
    obtain tbl news where g: "fold (upsert_answer now run_id ?A (staging_to_actual_question run_id qs2) qs2)
        (approved_answers run_id db) (answers db, []) = (tbl, news)" by (metis surj_pair)
    have "\<not> (\<exists>sq\<in>set (approved_questions run_id db). q_staging_id q = Some (qs_id sq))"
      using s by (auto simp: approved_staging_question_ids_def)
    then have "q \<in> set qs2" using keep q by blast
    moreover have "stale run_id ?A ?W q" using r s by (simp add: stale_def)
    ultimately show "q\<lparr>q_is_approved := False, q_updated_at := now\<rparr> \<in> set (questions db')"
      unfolding db' reconcile_eq [OF f g] by (force simp: image_iff)
  qed
  have d: "\<forall>q\<in>set (questions db'). \<forall>result s.
            res = Inr result \<longrightarrow>
            q_run_id q = run_id \<longrightarrow> q_staging_id q = Some s \<longrightarrow> s \<noteq> 0 \<longrightarrow>
            s \<notin> approved_questions_with_answers run_id db \<longrightarrow>
            \<not> q_is_approved q"
  proof (intro ballI allI impI)
    fix q result s
    assume q: "q \<in> set (questions db')" and ok: "res = Inr result"
      and r: "q_run_id q = run_id" and s: "q_staging_id q = Some s" "s \<noteq> 0"
        "s \<notin> approved_questions_with_answers run_id db"
    have db': "db' = snd (reconcile now run_id db)"
      using assms ok by (auto simp: sync_to_actual_eq split: option.splits if_splits)
    let ?A = "approved_staging_question_ids run_id db"
    let ?W = "approved_questions_with_answers run_id db"
    obtain qs2 m2 n2 where f: "fold (upsert_question now run_id ?W) (approved_questions run_id db)
          (questions db, staging_to_actual_question run_id (questions db), 0) = (qs2, m2, n2)"
      by (metis prod_cases3)
    obtain tbl news where g: "fold (upsert_answer now run_id ?A m2 qs2)
        (approved_answers run_id db) (answers db, []) = (tbl, news)" by (metis surj_pair)
    have "questions db' = map (\<lambda>q. if stale run_id ?A ?W q
                     then q\<lparr>q_is_approved := False, q_updated_at := now\<rparr> else q) qs2"
      unfolding db' reconcile_eq [OF f g] by simp
    then have "q \<in> (\<lambda>q. if stale run_id ?A ?W q
          then q\<lparr>q_is_approved := False, q_updated_at := now\<rparr> else q) ` set qs2"
      using q by simp
    then obtain q0 where q0: "q = (if stale run_id ?A ?W q0
          then q0\<lparr>q_is_approved := False, q_updated_at := now\<rparr> else q0)"
      by (rule imageE)
    show "\<not> q_is_approved q"
    proof (cases "stale run_id ?A ?W q0")
      case True
      then show ?thesis using q0 by simp
    next
      case False
      then have "q = q0" using q0 by simp
      then have "stale run_id ?A ?W q0" using r s by (simp add: stale_def)
      then show ?thesis using False by simp
    qed
  qed
  show ?thesis using a b c d by blast
qed

theorem sync_never_deletes_questions_witness:
  "sync_to_actual None 9 ''r'' seeded_db =
     (Inr \<lparr>message = ''Sync completed successfully'', last_sync_at = 9, questions_synced = 1\<rparr>,
      seeded_db_synced) \<and>
   map ident (questions seeded_db_synced) = [(1, ''r'', Some 7), (2, ''r'', None)] \<and>
   map ident (questions seeded_db) = [(1, ''r'', Some 7), (2, ''r'', None)] \<and>
   distinct (map q_id (questions seeded_db)) \<and>
   7 \<notin> approved_staging_question_ids ''r'' seeded_db \<and>
   \<lparr>q_id = 1, q_run_id = ''r'', q_staging_id = Some 7, q_question_text = ''t'',
     q_is_approved = False, q_created_at = 1, q_updated_at = 9, q_tags = []\<rparr>
     \<in> set (questions seeded_db_synced) \<and>
   sync_to_actual None 9 ''r'' lost_answer_db =
     (Inr \<lparr>message = ''Sync completed successfully'', last_sync_at = 9, questions_synced = 1\<rparr>,
      lost_answer_db_synced) \<and>
   map ident (questions lost_answer_db) = [(1, ''r'', Some 1)] \<and>
   map q_is_approved (questions lost_answer_db) = [True] \<and>
   1 \<in> approved_staging_question_ids ''r'' lost_answer_db \<and>
   1 \<notin> approved_questions_with_answers ''r'' lost_answer_db \<and>
   map ident (questions lost_answer_db_synced) = [(1, ''r'', Some 1)] \<and>
   map q_is_approved (questions lost_answer_db_synced) = [False]"
  using sync_never_deletes_questions [OF seeded_sync] sync_never_deletes_questions [OF lost_answer_sync]
    seeded_sync lost_answer_sync
  by (simp add: seeded_db_def seeded_db_synced_def lost_answer_db_def lost_answer_db_synced_def
        ident_def approved_staging_question_ids_def approved_questions_with_answers_def
        approved_questions_def approved_answers_def)

lemma should_delete_eq:
  "should_delete A Aa qs a =
     ((case a_staging_id a of None \<Rightarrow> False | Some s \<Rightarrow> s \<noteq> 0 \<and> s \<notin> Aa) \<or>
      owner_unapproved A qs a)"
  by (simp add: should_delete_def owner_unapproved_def)

lemma owner_unapproved_cong:
  "map ident qs = map ident qs' \<Longrightarrow> owner_unapproved A qs a = owner_unapproved A qs' a"
  using should_delete_cong [of qs qs' A "{}" "a\<lparr>a_staging_id := None\<rparr>"]
  by (simp add: should_delete_eq owner_unapproved_def)

text \<open>
  The rows the question loop appends carry approved links, so the owner of an answer the
  request found is unapproved after the loop exactly when it was before.
\<close>

lemma owner_unapproved_extend:
  assumes d': "distinct (map q_id qs')"
    and pre: "map ident qs' = map ident qs @ new"
    and rows: "\<forall>q'\<in>set qs'. q' \<in> set qs \<or> (\<exists>s. q_staging_id q' = Some s \<and> s \<in> A)"
  shows "owner_unapproved A qs' a = owner_unapproved A qs a"
proof -
  let ?k = "a_question_id a"
  let ?bad = "\<lambda>q. case q_staging_id q of None \<Rightarrow> False | Some s \<Rightarrow> s \<noteq> 0 \<and> s \<notin> A"
  have ids: "map q_id qs' = map q_id qs @ map fst new"
    using pre ident_eq_q_id [of qs' "qs @ []"] by (metis (no_types) q_id_ident map_append map_map)
  have d: "distinct (map q_id qs)" using d' ids by simp
  have "(case get_question ?k qs' of None \<Rightarrow> False | Some q \<Rightarrow> ?bad q) =
        (case get_question ?k qs of None \<Rightarrow> False | Some q \<Rightarrow> ?bad q)"
  proof (cases "get_question ?k qs")
    case (Some q)
    then have q: "q \<in> set qs" "q_id q = ?k" using get_question_SomeD by auto
    have "ident q \<in> set (map ident qs')" using pre q(1) by simp
    then obtain q' where q': "q' \<in> set qs'" "ident q' = ident q" by auto
    then have "get_question ?k qs' = Some q'"
      using get_question_distinct [OF d' q'(1)] q(2) by (simp add: ident_def)
    moreover have "q_staging_id q' = q_staging_id q" using q'(2) by (simp add: ident_def)
    ultimately show ?thesis using Some by simp
  next
    case None
    then have nin: "?k \<notin> q_id ` set qs" by (simp add: get_question_None)
    show ?thesis
    proof (cases "get_question ?k qs'")
      case None
      then show ?thesis using \<open>get_question ?k qs = None\<close> by simp
    next
      case (Some q')
      then have "q' \<in> set qs'" "q_id q' = ?k" using get_question_SomeD by auto
      then have "\<exists>s. q_staging_id q' = Some s \<and> s \<in> A" using rows nin
        by (metis image_eqI)
      then show ?thesis using Some \<open>get_question ?k qs = None\<close> by auto
    qed
  qed
  then show ?thesis by (simp add: owner_unapproved_def)
qed

text \<open>
  C3, as the code has it. On a database with distinct primary keys a successful sync
  leaves every published question without a staging link in place and unchanged, adds no
  such question, and changes no published answer without a staging link. Such an answer
  is however deleted when it belongs to the synced run and its owning published question
  carries a staging link that names no approved staging question (the second rule of
  step 5); in every other case it is still present.
\<close>

theorem sync_spares_unlinked_rows:
  assumes ok: "sync_to_actual None now run_id db = (Inr result, db')"
    and dq: "distinct (map q_id (questions db))"
    and da: "distinct (map a_id (answers db))"
  shows "(\<forall>q\<in>set (questions db). q_staging_id q = None \<longrightarrow> q \<in> set (questions db')) \<and>
         (\<forall>q\<in>set (questions db'). q_staging_id q = None \<longrightarrow> q \<in> set (questions db)) \<and>
         (\<forall>a\<in>set (answers db'). a_staging_id a = None \<longrightarrow> a \<in> set (answers db)) \<and>
         (\<forall>a\<in>set (answers db). a_staging_id a = None \<longrightarrow>
            (a \<in> set (answers db') \<longleftrightarrow>
             \<not> (a_run_id a = run_id \<and>
                owner_unapproved (approved_staging_question_ids run_id db) (questions db) a)))"
proof -
  let ?A = "approved_staging_question_ids run_id db"
  let ?Aa = "approved_staging_answer_ids run_id db"
  let ?W = "approved_questions_with_answers run_id db"
  let ?xs = "approved_questions run_id db"
  let ?ys = "approved_answers run_id db"
  have db': "db' = snd (reconcile now run_id db)"
    using ok by (auto simp: sync_to_actual_eq split: option.splits)
  from sync_questions_fold [OF dq, of now run_id ?W ?xs 0]
  obtain qs2 n2 where
    f: "fold (upsert_question now run_id ?W) ?xs
          (questions db, staging_to_actual_question run_id (questions db), 0) =
        (qs2, staging_to_actual_question run_id qs2, n2)"
    and d2: "distinct (map q_id qs2)"
    and i2: "\<exists>new. map ident qs2 = map ident (questions db) @ new"
    and keep: "\<forall>q\<in>set (questions db).
        \<not> (q_run_id q = run_id \<and> (\<exists>sq\<in>set ?xs. q_staging_id q = Some (qs_id sq)))
        \<longrightarrow> q \<in> set qs2"
    and rows: "\<forall>q'\<in>set qs2. q' \<in> set (questions db) \<or>
        (q_run_id q' = run_id \<and> (\<exists>sq\<in>set ?xs. q_staging_id q' = Some (qs_id sq)))"
    by blast
  let ?m = "staging_to_actual_question run_id qs2"
  have da': "distinct (map a_id (answers db @ []))" using da by simp
  from sync_answers_fold [OF da', of now run_id ?A ?m qs2 ?ys]
  obtain tbl new' where
    g: "fold (upsert_answer now run_id ?A ?m qs2) ?ys (answers db, []) = (tbl, new')"
    and added: "\<forall>a\<in>set new'. \<exists>sa\<in>set ?ys. added_for run_id ?A ?m qs2 sa a \<and>
        find (matches run_id (a_question_id a) sa) (answers db) = None"
    and akeep: "\<forall>a\<in>set (answers db). (\<forall>sa\<in>set ?ys. a_staging_id a \<noteq> Some (as_id sa)) \<longrightarrow> a \<in> set tbl"
    and arows: "\<forall>a'\<in>set tbl. a' \<in> set (answers db) \<or> (\<exists>sa\<in>set ?ys. a_staging_id a' = Some (as_id sa))"
    by auto
  note R = reconcile_eq [OF f g]
  have qs': "questions db' =
      map (\<lambda>q. if stale run_id ?A ?W q then q\<lparr>q_is_approved := False, q_updated_at := now\<rparr> else q) qs2"
    unfolding db' R by simp
  have as': "answers db' =
      filter (\<lambda>a. \<not> (a_run_id a = run_id \<and> should_delete ?A ?Aa qs2 a)) tbl @ new'"
    unfolding db' R by simp
  have new_linked: "\<And>a. a \<in> set new' \<Longrightarrow> a_staging_id a \<noteq> None"
    using added by (auto simp: added_for_def)
  have c1: "\<forall>q\<in>set (questions db). q_staging_id q = None \<longrightarrow> q \<in> set (questions db')"
  proof (intro ballI impI)
    fix q assume q: "q \<in> set (questions db)" "q_staging_id q = None"
    then have "q \<in> set qs2" using keep by auto
    moreover have "\<not> stale run_id ?A ?W q" using q(2) by (simp add: stale_def)
    ultimately show "q \<in> set (questions db')" unfolding qs' by force
  qed
  have c2: "\<forall>q\<in>set (questions db'). q_staging_id q = None \<longrightarrow> q \<in> set (questions db)"
  proof (intro ballI impI)
    fix q assume q: "q \<in> set (questions db')" "q_staging_id q = None"
    then obtain q2 where q2: "q2 \<in> set qs2"
        "q = (if stale run_id ?A ?W q2 then q2\<lparr>q_is_approved := False, q_updated_at := now\<rparr> else q2)"
      unfolding qs' by auto
    have "q_staging_id q2 = None" using q(2) q2(2) by (auto split: if_splits)
    then have "\<not> stale run_id ?A ?W q2" by (simp add: stale_def)
    then have "q = q2" using q2(2) by simp
    then show "q \<in> set (questions db)" using rows q2(1) \<open>q_staging_id q2 = None\<close> by auto
  qed
  have c3: "\<forall>a\<in>set (answers db'). a_staging_id a = None \<longrightarrow> a \<in> set (answers db)"
  proof (intro ballI impI)
    fix a assume a: "a \<in> set (answers db')" "a_staging_id a = None"
    then have "a \<in> set tbl" using new_linked [of a] unfolding as' by force
    then show "a \<in> set (answers db)" using arows a(2) by auto
  qed
  have c4: "\<forall>a\<in>set (answers db). a_staging_id a = None \<longrightarrow>
            (a \<in> set (answers db') \<longleftrightarrow>
             \<not> (a_run_id a = run_id \<and> owner_unapproved ?A (questions db) a))"
  proof (intro ballI impI)
    fix a assume a: "a \<in> set (answers db)" "a_staging_id a = None"
    then have t: "a \<in> set tbl" using akeep by auto
    obtain new where pre: "map ident qs2 = map ident (questions db) @ new" using i2 by blast
    have "\<forall>q'\<in>set qs2. q' \<in> set (questions db) \<or> (\<exists>s. q_staging_id q' = Some s \<and> s \<in> ?A)"
      using rows by (auto simp: approved_staging_question_ids_def)
    then have "owner_unapproved ?A qs2 a = owner_unapproved ?A (questions db) a"
      by (rule owner_unapproved_extend [OF d2 pre])
    then have "should_delete ?A ?Aa qs2 a = owner_unapproved ?A (questions db) a"
      using a(2) by (simp add: should_delete_eq)
    then show "a \<in> set (answers db') \<longleftrightarrow>
             \<not> (a_run_id a = run_id \<and> owner_unapproved ?A (questions db) a)"
      using t new_linked [of a] a(2) unfolding as' by auto
  qed
  show ?thesis using c1 c2 c3 c4 by blast
qed

text \<open>
  The claim as stated fails: in the seeded run the answer 1 has no staging link, and the
  pass deletes it, because its question carries the link 7 that no staging question has.
\<close>

theorem sync_deletes_unlinked_answer:
  "\<lparr>a_id = 1, a_run_id = ''r'', a_question_id = 1, a_staging_id = None,
     a_answer_text = ''x'', a_created_at = 1, a_updated_at = 1\<rparr> \<in> set (answers seeded_db) \<and>
   \<lparr>a_id = 1, a_run_id = ''r'', a_question_id = 1, a_staging_id = None,
     a_answer_text = ''x'', a_created_at = 1, a_updated_at = 1\<rparr>
     \<notin> set (answers (snd (sync_to_actual None 9 ''r'' seeded_db))) \<and>
   map a_id (answers (snd (sync_to_actual None 9 ''r'' seeded_db))) = [2]"
  by (simp add: seeded_sync) (simp add: seeded_db_def seeded_db_synced_def)

theorem sync_spares_unlinked_rows_witness:
  "sync_to_actual None 9 ''r'' seeded_db =
     (Inr \<lparr>message = ''Sync completed successfully'', last_sync_at = 9, questions_synced = 1\<rparr>,
      seeded_db_synced) \<and>
   distinct (map q_id (questions seeded_db)) \<and>
   distinct (map a_id (answers seeded_db)) \<and>
   [q \<leftarrow> questions seeded_db. q_staging_id q = None] =
     [q \<leftarrow> questions seeded_db_synced. q_staging_id q = None] \<and>
   [a \<leftarrow> answers seeded_db_synced. a_staging_id a = None] =
     [a \<leftarrow> answers seeded_db.
        \<not> (a_run_id a = ''r'' \<and>
           owner_unapproved (approved_staging_question_ids ''r'' seeded_db) (questions seeded_db) a)]"
  using sync_spares_unlinked_rows [OF seeded_sync] seeded_sync
  by (simp add: seeded_db_def seeded_db_synced_def owner_unapproved_def get_question_def
        approved_staging_question_ids_def approved_questions_def)

lemma reconcile_facts:
  assumes dq: "distinct (map q_id (questions db))"
    and da: "distinct (map a_id (answers db))"
  shows "\<exists>qs2 n2 tbl news. pass_facts now r db qs2 n2 tbl news"
proof -
  let ?A = "approved_staging_question_ids r db"
  let ?W = "approved_questions_with_answers r db"
  let ?xs = "approved_questions r db"
  let ?ys = "approved_answers r db"
  from sync_questions_fold [OF dq, of now r ?W ?xs 0]
  obtain qs2 n2 where
    f: "fold (upsert_question now r ?W) ?xs
          (questions db, staging_to_actual_question r (questions db), 0) =
        (qs2, staging_to_actual_question r qs2, n2)"
    and q1: "distinct (map q_id qs2)"
    and q2: "\<exists>new. map ident qs2 = map ident (questions db) @ new"
    and q3: "distinct (links r (questions db)) \<longrightarrow> distinct (links r qs2)"
    and q4: "distinct (map qs_id ?xs) \<longrightarrow>
       (\<forall>sq\<in>set ?xs. \<exists>q\<in>set qs2. staging_to_actual_question r qs2 (qs_id sq) = Some (q_id q) \<and>
          mirrors r ?W sq q \<and> q_updated_at q = now)"
    and q5: "\<forall>q\<in>set (questions db). \<not> (q_run_id q = r \<and> (\<exists>sq\<in>set ?xs. q_staging_id q = Some (qs_id sq)))
        \<longrightarrow> q \<in> set qs2"
    and q6: "\<forall>q'\<in>set qs2. q' \<in> set (questions db) \<or>
        (q_run_id q' = r \<and> (\<exists>sq\<in>set ?xs. q_staging_id q' = Some (qs_id sq)))"
    by blast
  let ?m = "staging_to_actual_question r qs2"
  have da': "distinct (map a_id (answers db @ []))" using da by simp
  from sync_answers_fold [OF da', of now r ?A ?m qs2 ?ys]
  obtain tbl news where
    g: "fold (upsert_answer now r ?A ?m qs2) ?ys (answers db, []) = (tbl, [] @ news)"
    and a1: "map a_ident tbl = map a_ident (answers db)"
    and a2: "distinct (map a_id (tbl @ [] @ news))"
    and a3: "\<forall>a\<in>set news. \<exists>sa\<in>set ?ys. added_for r ?A ?m qs2 sa a \<and>
        find (matches r (a_question_id a) sa) (answers db) = None"
    and a4: "distinct (map as_id ?ys) \<longrightarrow>
       (\<forall>sa\<in>set ?ys. \<forall>q. as_question_id sa \<in> ?A \<longrightarrow> deref ?m qs2 (as_question_id sa) = Some q \<longrightarrow>
          q_id q \<noteq> 0 \<longrightarrow>
          (case find (matches r (q_id q) sa) tbl of
             Some e \<Rightarrow> a_answer_text e = as_answer_text sa
           | None \<Rightarrow> (\<exists>a\<in>set news. added_for r ?A ?m qs2 sa a)))"
    and a5: "\<forall>a\<in>set (answers db). (\<forall>sa\<in>set ?ys. a_staging_id a \<noteq> Some (as_id sa)) \<longrightarrow> a \<in> set tbl"
    and a6: "\<forall>a'\<in>set tbl. a' \<in> set (answers db) \<or> (\<exists>sa\<in>set ?ys. a_staging_id a' = Some (as_id sa))"
    by blast
  have g': "fold (upsert_answer now r ?A ?m qs2) ?ys (answers db, []) = (tbl, news)"
    using g by simp
  have a2': "distinct (map a_id (tbl @ news))" using a2 by simp
  have "pass_facts now r db qs2 n2 tbl news"
    unfolding pass_facts_def
    by (intro conjI)
       (fact f, fact g', fact q1, fact q2, fact q3, fact q4, fact q5, fact q6,
        fact a1, fact a2', fact a3, fact a4, fact a5, fact a6, fact reconcile_eq [OF f g'])
  then show ?thesis by blast
qed

lemma pass_factsD:
  assumes "pass_facts now r db qs2 n2 tbl news"
  shows "distinct (map q_id qs2)"
    and "\<exists>new. map ident qs2 = map ident (questions db) @ new"
    and "distinct (links r (questions db)) \<longrightarrow> distinct (links r qs2)"
    and "distinct (map qs_id (approved_questions r db)) \<longrightarrow>
        (\<forall>sq\<in>set (approved_questions r db). \<exists>q\<in>set qs2.
            staging_to_actual_question r qs2 (qs_id sq) = Some (q_id q) \<and>
            mirrors r (approved_questions_with_answers r db) sq q \<and> q_updated_at q = now)"
    and "\<forall>q\<in>set (questions db).
        \<not> (q_run_id q = r \<and> (\<exists>sq\<in>set (approved_questions r db). q_staging_id q = Some (qs_id sq)))
        \<longrightarrow> q \<in> set qs2"
    and "\<forall>q'\<in>set qs2. q' \<in> set (questions db) \<or>
        (q_run_id q' = r \<and> (\<exists>sq\<in>set (approved_questions r db). q_staging_id q' = Some (qs_id sq)))"
    and "map a_ident tbl = map a_ident (answers db)"
    and "distinct (map a_id (tbl @ news))"
    and "\<forall>a\<in>set news. \<exists>sa\<in>set (approved_answers r db).
        added_for r (approved_staging_question_ids r db) (staging_to_actual_question r qs2) qs2 sa a \<and>
        find (matches r (a_question_id a) sa) (answers db) = None"
    and "distinct (map as_id (approved_answers r db)) \<longrightarrow>
        (\<forall>sa\<in>set (approved_answers r db). \<forall>q.
           as_question_id sa \<in> approved_staging_question_ids r db \<longrightarrow>
           deref (staging_to_actual_question r qs2) qs2 (as_question_id sa) = Some q \<longrightarrow>
           q_id q \<noteq> 0 \<longrightarrow>
           (case find (matches r (q_id q) sa) tbl of
              Some e \<Rightarrow> a_answer_text e = as_answer_text sa
            | None \<Rightarrow> (\<exists>a\<in>set news.
                added_for r (approved_staging_question_ids r db)
                  (staging_to_actual_question r qs2) qs2 sa a)))"
    and "\<forall>a\<in>set (answers db).
        (\<forall>sa\<in>set (approved_answers r db). a_staging_id a \<noteq> Some (as_id sa)) \<longrightarrow> a \<in> set tbl"
    and "\<forall>a'\<in>set tbl. a' \<in> set (answers db) \<or>
        (\<exists>sa\<in>set (approved_answers r db). a_staging_id a' = Some (as_id sa))"
    and "reconcile now r db =
       (n2 + length (filter (\<lambda>q. stale r (approved_staging_question_ids r db)
                                   (approved_questions_with_answers r db) q \<and> q_is_approved q) qs2),
        db\<lparr>questions :=
             map (\<lambda>q. if stale r (approved_staging_question_ids r db)
                            (approved_questions_with_answers r db) q
                       then q\<lparr>q_is_approved := False, q_updated_at := now\<rparr> else q) qs2,
           answers :=
             filter (\<lambda>a. \<not> (a_run_id a = r \<and>
                            should_delete (approved_staging_question_ids r db)
                              (approved_staging_answer_ids r db) qs2 a)) tbl @ news,
           runs := update_run r (\<lambda>r. r\<lparr>r_last_sync_at := Some now, r_updated_at := now\<rparr>)
                     (runs db)\<rparr>)"
    and "fold (upsert_question now r (approved_questions_with_answers r db)) (approved_questions r db)
       (questions db, staging_to_actual_question r (questions db), 0) =
       (qs2, staging_to_actual_question r qs2, n2)"
    and "fold (upsert_answer now r (approved_staging_question_ids r db)
             (staging_to_actual_question r qs2) qs2) (approved_answers r db) (answers db, []) =
       (tbl, news)"
  using assms unfolding pass_facts_def by - (elim conjE, assumption)+

lemmas session_eval_defs =
  try_body_def raised_def iterations_def sync_question_def sync_answer_def sync_demotions_def
  sync_deletions_def flush_def commit_def open_session_def
  get_run_def approved_questions_def approved_answers_def
  approved_staging_question_ids_def approved_staging_answer_ids_def
  approved_questions_with_answers_def staging_to_actual_question_def deref_def
  get_question_def upsert_question_def upsert_answer_def update_question_def update_answer_def
  demote_question_def should_delete_def update_run_def next_id_def Let_def

lemma flushed_question_eval:
  "questions (store (snd (try_body (Some (UpsertQuestions, 1, ''disk I/O error'')) 9 ''r''
                            (open_session approved_db)))) =
     [\<lparr>q_id = 1, q_run_id = ''r'', q_staging_id = Some 1, q_question_text = ''q'',
       q_is_approved = False, q_created_at = 9, q_updated_at = 9, q_tags = []\<rparr>]"
  by (simp add: session_eval_defs approved_db_def demo_run_def)

lemma written_pass_eval:
  "store (snd (try_body (Some (Commit, 0, ''database is locked'')) 9 ''r''
                 (open_session lost_answer_db))) = lost_answer_db_synced"
  by (simp add: session_eval_defs lost_answer_db_def lost_answer_db_synced_def demo_run_def)


text \<open>
  C9. A sync for a run id that no run has fails with 404 and leaves the database as it
  was. When the store raises in any of the six reconciliation steps (the commit
  included), after any number of iterations of that step, the body of the \<^verbatim>\<open>try\<close> block
  ends with that exception; whatever the session had changed, flushed or written by then,
  the handler's rollback returns it to the session that found the database, and the
  request fails with 500 and leaves the database as it was: no published row is changed
  and \<^verbatim>\<open>last_sync_at\<close> is not advanced.
\<close>

theorem sync_error_handling:
  "(get_run run_id db = None \<longrightarrow>
      sync_to_actual fault now run_id db = (Inl (HTTPException 404 ''Run not found''), db)) \<and>
   (\<forall>step k e. get_run run_id db \<noteq> None \<longrightarrow> step \<noteq> Respond \<longrightarrow>
      fst (try_body (Some (step, k, e)) now run_id (open_session db)) = Inl e \<and>
      rollback (snd (try_body (Some (step, k, e)) now run_id (open_session db))) = open_session db \<and>
      sync_to_actual (Some (step, k, e)) now run_id db =
        (Inl (HTTPException 500 (''Error syncing to actual tables: '' @ e)), db))"
proof (intro conjI allI impI)
  assume "get_run run_id db = None"
  then show "sync_to_actual fault now run_id db = (Inl (HTTPException 404 ''Run not found''), db)"
    by (simp add: sync_to_actual_def)
next
  fix step k e
  assume run: "get_run run_id db \<noteq> None" and step: "step \<noteq> Respond"
  obtain res s where t: "try_body (Some (step, k, e)) now run_id (open_session db) = (res, s)"
    by (metis surj_pair)
  have res: "res = Inl e" and c: "committed s = db"
    using try_body_raise [OF step, of k e now run_id "open_session db"] t
    by (simp_all add: open_session_def)
  show "fst (try_body (Some (step, k, e)) now run_id (open_session db)) = Inl e"
    using t res by simp
  show rb: "rollback (snd (try_body (Some (step, k, e)) now run_id (open_session db))) = open_session db"
    using t c by (simp add: rollback_open)
  have "store (rollback s) = db"
    using rb t by (simp add: open_session_def)
  then show "sync_to_actual (Some (step, k, e)) now run_id db =
        (Inl (HTTPException 500 (''Error syncing to actual tables: '' @ e)), db)"
    using run t res by (auto simp: sync_to_actual_def)
qed

theorem sync_error_handling_witness:
  "get_run ''zz'' seeded_db = None \<and>
   sync_to_actual None 9 ''zz'' seeded_db = (Inl (HTTPException 404 ''Run not found''), seeded_db) \<and>
   get_run ''r'' approved_db \<noteq> None \<and>
   questions approved_db = [] \<and>
   questions (store (snd (try_body (Some (UpsertQuestions, 1, ''disk I/O error'')) 9 ''r''
                            (open_session approved_db)))) =
     [\<lparr>q_id = 1, q_run_id = ''r'', q_staging_id = Some 1, q_question_text = ''q'',
       q_is_approved = False, q_created_at = 9, q_updated_at = 9, q_tags = []\<rparr>] \<and>
   rollback (snd (try_body (Some (UpsertQuestions, 1, ''disk I/O error'')) 9 ''r''
                    (open_session approved_db))) = open_session approved_db \<and>
   sync_to_actual (Some (UpsertQuestions, 1, ''disk I/O error'')) 9 ''r'' approved_db =
     (Inl (HTTPException 500 ''Error syncing to actual tables: disk I/O error''), approved_db) \<and>
   get_run ''r'' lost_answer_db \<noteq> None \<and>
   store (snd (try_body (Some (Commit, 0, ''database is locked'')) 9 ''r''
                 (open_session lost_answer_db))) = lost_answer_db_synced \<and>
   map r_last_sync_at (runs lost_answer_db_synced) = [Some 9] \<and>
   map r_last_sync_at (runs lost_answer_db) = [None] \<and>
   sync_to_actual (Some (Commit, 0, ''database is locked'')) 9 ''r'' lost_answer_db =
     (Inl (HTTPException 500 ''Error syncing to actual tables: database is locked''), lost_answer_db)"
  using sync_error_handling [of "''zz''" seeded_db None 9]
    sync_error_handling [of "''r''" approved_db None 9]
    sync_error_handling [of "''r''" lost_answer_db None 9]
    flushed_question_eval written_pass_eval
  by (simp add: get_run_def seeded_db_def approved_db_def lost_answer_db_def
        lost_answer_db_synced_def demo_run_def)

text \<open>
  The reading of \<^verbatim>\<open>run.last_sync_at\<close> for the response comes after the commit: a raise
  there reports a failure although the pass is committed.
\<close>

lemma sync_fault_after_commit:
  "get_run run_id db \<noteq> None \<Longrightarrow>
   sync_to_actual (Some (Respond, k, e)) now run_id db =
     (Inl (HTTPException 500 (''Error syncing to actual tables: '' @ e)),
      snd (reconcile now run_id db))"
  by (auto simp: sync_to_actual_eq)

lemma sync_success:
  "sync_to_actual None now r db = (Inr result, db') \<Longrightarrow>
   get_run r db \<noteq> None \<and> db' = snd (reconcile now r db) \<and>
   questions_synced result = fst (reconcile now r db) \<and> last_sync_at result = now"
  by (auto simp: sync_to_actual_eq split: option.splits)

lemma distinct_approved_questions:
  "distinct (map qs_id (question_staging db)) \<Longrightarrow> distinct (map qs_id (approved_questions r db))"
  by (simp add: approved_questions_def distinct_map_filter)


lemma stale_ident: "ident q = ident q' \<Longrightarrow> stale r A W q = stale r A W q'"
  by (simp add: stale_def ident_def)

text \<open>the published table after the pass\<close>

lemma pass_questions:
  assumes "pass_facts now r db qs2 n2 tbl news"
  shows "questions (snd (reconcile now r db)) =
      map (\<lambda>q. if stale r (approved_staging_question_ids r db) (approved_questions_with_answers r db) q
                then q\<lparr>q_is_approved := False, q_updated_at := now\<rparr> else q) qs2"
    and "map ident (questions (snd (reconcile now r db))) = map ident qs2"
    and "distinct (map q_id (questions (snd (reconcile now r db))))"
    and "staging_to_actual_question r (questions (snd (reconcile now r db))) = staging_to_actual_question r qs2"
    and "answers (snd (reconcile now r db)) =
      filter (\<lambda>a. \<not> (a_run_id a = r \<and>
                     should_delete (approved_staging_question_ids r db)
                       (approved_staging_answer_ids r db) qs2 a)) tbl @ news"
    and "question_staging (snd (reconcile now r db)) = question_staging db"
    and "answer_staging (snd (reconcile now r db)) = answer_staging db"
proof -
  note R = pass_factsD(13) [OF assms]
  show q: "questions (snd (reconcile now r db)) =
      map (\<lambda>q. if stale r (approved_staging_question_ids r db) (approved_questions_with_answers r db) q
                then q\<lparr>q_is_approved := False, q_updated_at := now\<rparr> else q) qs2"
    unfolding R by simp
  show i: "map ident (questions (snd (reconcile now r db))) = map ident qs2"
    unfolding q by (rule ident_demote)
  show "distinct (map q_id (questions (snd (reconcile now r db))))"
    using pass_factsD(1) [OF assms] ident_eq_q_id [OF i] by simp
  show "staging_to_actual_question r (questions (snd (reconcile now r db))) = staging_to_actual_question r qs2"
    by (rule index_cong [OF i])
  show "answers (snd (reconcile now r db)) =
      filter (\<lambda>a. \<not> (a_run_id a = r \<and>
                     should_delete (approved_staging_question_ids r db)
                       (approved_staging_answer_ids r db) qs2 a)) tbl @ news"
    unfolding R by simp
  show "question_staging (snd (reconcile now r db)) = question_staging db"
    "answer_staging (snd (reconcile now r db)) = answer_staging db"
    unfolding R by simp_all
qed

lemma mirrors_demote:
  assumes "mirrors r W sq q" "qs_id sq \<in> A"
  shows "mirrors r W sq (if stale r A W q then q\<lparr>q_is_approved := False, q_updated_at := now\<rparr> else q)"
  using assms by (auto simp: mirrors_def stale_def)

text \<open>every approved staging question has its published row, found by the dictionary\<close>

lemma pass_designated:
  assumes pf: "pass_facts now r db qs2 n2 tbl news"
    and dqs: "distinct (map qs_id (question_staging db))"
    and sq: "sq \<in> set (approved_questions r db)"
  shows "\<exists>q\<in>set (questions (snd (reconcile now r db))).
           staging_to_actual_question r (questions (snd (reconcile now r db))) (qs_id sq) = Some (q_id q) \<and>
           mirrors r (approved_questions_with_answers r db) sq q"
proof -
  let ?A = "approved_staging_question_ids r db"
  let ?W = "approved_questions_with_answers r db"
  let ?d = "\<lambda>q. if stale r ?A ?W q then q\<lparr>q_is_approved := False, q_updated_at := now\<rparr> else q"
  from pass_factsD(4) [OF pf] distinct_approved_questions [OF dqs] sq
  obtain q where q: "q \<in> set qs2" "staging_to_actual_question r qs2 (qs_id sq) = Some (q_id q)"
      "mirrors r ?W sq q" by blast
  have inA: "qs_id sq \<in> ?A" using sq by (simp add: approved_staging_question_ids_def)
  have "?d q \<in> set (questions (snd (reconcile now r db)))"
    unfolding pass_questions(1) [OF pf] set_map using q(1) by (rule imageI)
  moreover have "q_id (?d q) = q_id q" by simp
  moreover have "mirrors r ?W sq (?d q)" using q(3) inA by (rule mirrors_demote)
  ultimately show ?thesis
    using q(2) pass_questions(4) [OF pf] by (intro bexI [of _ "?d q"]) simp_all
qed

text \<open>a flag that is set after the pass belongs to a question with an approved answer\<close>

lemma pass_flag:
  assumes pf: "pass_facts now r db qs2 n2 tbl news"
    and q: "q \<in> set (questions (snd (reconcile now r db)))" "q_run_id q = r"
      "q_staging_id q = Some s" "s \<noteq> 0" "q_is_approved q"
  shows "s \<in> approved_questions_with_answers r db"
proof -
  let ?A = "approved_staging_question_ids r db"
  let ?W = "approved_questions_with_answers r db"
  obtain q2 where q2: "q2 \<in> set qs2"
      "q = (if stale r ?A ?W q2 then q2\<lparr>q_is_approved := False, q_updated_at := now\<rparr> else q2)"
    using q(1) unfolding pass_questions(1) [OF pf] by auto
  have "\<not> stale r ?A ?W q2" using q2(2) q(5) by (auto split: if_splits)
  moreover have "q = q2" using q2(2) calculation by simp
  ultimately show ?thesis using q(2,3,4) with_answers_subset [of s r db]
    by (auto simp: stale_def)
qed

lemma pass_links:
  assumes pf: "pass_facts now r db qs2 n2 tbl news"
    and "distinct (links r (questions db))"
  shows "distinct (links r (questions (snd (reconcile now r db))))"
  using pass_factsD(3) [OF pf] assms(2) links_cong [OF pass_questions(2) [OF pf], of r] by simp

lemma tag_names_snoc:
  "tag_names tbl (ids @ [k]) = tag_names tbl ids \<union> t_name ` {t \<in> set tbl. t_id t = k}"
  by (auto simp: tag_names_def)

lemma tag_names_extend:
  "t_id t \<notin> set ids \<Longrightarrow> tag_names (tbl @ [t]) ids = tag_names tbl ids"
  by (auto simp: tag_names_def)

lemma resolve_tags_names:
  assumes "distinct (map t_id tbl)" "set objs \<subseteq> t_id ` set tbl"
    and "resolve_tags now names (tbl, objs) = (tbl', objs')"
  shows "tag_names tbl' objs' = tag_names tbl objs \<union> (set (map strip names) - {[]})"
  using assms
proof (induction names arbitrary: tbl objs)
  case Nil
  then show ?case by simp
next
  case (Cons name rest)
  show ?case
  proof (cases "strip name = []")
    case True
    then have "resolve_tags now rest (tbl, objs) = (tbl', objs')" using Cons.prems(3) by simp
    from Cons.IH [OF Cons.prems(1,2) this] show ?thesis using True by auto
  next
    case ne: False
    show ?thesis
    proof (cases "find (\<lambda>t. t_name t = strip name) tbl")
      case (Some tag)
      then have tag: "tag \<in> set tbl" "t_name tag = strip name" using find_SomeD [OF Some] by auto
      have only: "{t \<in> set tbl. t_id t = t_id tag} = {tag}"
        using Cons.prems(1) tag(1) by (auto simp: distinct_map inj_on_def)
      have r: "resolve_tags now rest (tbl, objs @ [t_id tag]) = (tbl', objs')"
        using Cons.prems(3) ne Some by simp
      have sub: "set (objs @ [t_id tag]) \<subseteq> t_id ` set tbl" using Cons.prems(2) tag(1) by auto
      from Cons.IH [OF Cons.prems(1) sub r]
      show ?thesis using tag(2) ne by (auto simp: tag_names_snoc only)
    next
      case None
      let ?tag = "\<lparr>t_id = next_id (map t_id tbl), t_name = strip name, t_created_at = now\<rparr>"
      have fresh: "t_id ?tag \<notin> t_id ` set tbl" using next_id_fresh [of "map t_id tbl"] by simp
      have r: "resolve_tags now rest (tbl @ [?tag], objs @ [t_id ?tag]) = (tbl', objs')"
        using Cons.prems(3) ne None by (simp add: Let_def)
      have d: "distinct (map t_id (tbl @ [?tag]))" using Cons.prems(1) fresh by simp
      have sub: "set (objs @ [t_id ?tag]) \<subseteq> t_id ` set (tbl @ [?tag])" using Cons.prems(2) by auto
      have "\<And>x. x \<in> set tbl \<Longrightarrow> t_id x \<noteq> t_id ?tag" using fresh by (metis imageI)
      then have only: "{t \<in> set (tbl @ [?tag]). t_id t = t_id ?tag} = {?tag}"
        by auto
      have "t_id ?tag \<notin> set objs" using fresh Cons.prems(2) by auto
      then have "tag_names (tbl @ [?tag]) objs = tag_names tbl objs" by (rule tag_names_extend)
      then have "tag_names (tbl @ [?tag]) (objs @ [t_id ?tag]) = tag_names tbl objs \<union> {strip name}"
        unfolding tag_names_snoc only by simp
      with Cons.IH [OF d sub r] show ?thesis using ne by auto
    qed
  qed
qed


lemma update_question_tags_eq:
  "update_question_tags now question_id names db =
     (case get_question_staging question_id db of
        None \<Rightarrow> (Inl (HTTPException 404 ''Question not found''), db)
      | Some question \<Rightarrow>
          if \<not> distinct (snd (resolve_tags now names (tags db, [])))
          then (Inl (HTTPException 500
                  (''Error updating question tags: '' @ ''UNIQUE constraint failed'')), db)
          else (Inr (filter (\<lambda>t. t_id t \<in> set (snd (resolve_tags now names (tags db, []))))
                       (fst (resolve_tags now names (tags db, [])))),
                db\<lparr>question_staging :=
                      update_question_staging question_id
                        (\<lambda>q. q\<lparr>qs_tags := snd (resolve_tags now names (tags db, [])),
                                qs_updated_at := now\<rparr>)
                        (question_staging db),
                   runs := touch_run now (qs_run_id question) (runs db),
                   tags := fst (resolve_tags now names (tags db, []))\<rparr>))"
  unfolding update_question_tags_def Let_def case_prod_beta ..

lemma update_question_tags_names:
  assumes "update_question_tags t qid names db0 = (Inr out, db)"
    and "distinct (map t_id (tags db0))"
    and "sq \<in> set (question_staging db)" "qs_id sq = qid"
  shows "tag_names (tags db) (qs_tags sq) = set (map strip names) - {[]}"
proof (cases "get_question_staging qid db0")
  case None
  then show ?thesis using assms(1) by (simp add: update_question_tags_eq)
next
  case (Some question)
  let ?r = "resolve_tags t names (tags db0, [])"
  note u = assms(1) [unfolded update_question_tags_eq Some option.case]
  have nn: "\<not> \<not> distinct (snd ?r)"
  proof
    assume nd: "\<not> distinct (snd ?r)"
    from u [unfolded if_P [OF nd]] show False by (simp only: prod.inject sum.distinct simp_thms)
  qed
  from arg_cong [OF u [unfolded if_not_P [OF nn]], of snd]
  have db: "db = db0\<lparr>question_staging :=
                      update_question_staging qid (\<lambda>q. q\<lparr>qs_tags := snd ?r, qs_updated_at := t\<rparr>)
                        (question_staging db0),
                    runs := touch_run t (qs_run_id question) (runs db0), tags := fst ?r\<rparr>"
    unfolding snd_conv by (rule sym)
  have "sq \<in> set (update_question_staging qid (\<lambda>q. q\<lparr>qs_tags := snd ?r, qs_updated_at := t\<rparr>)
                        (question_staging db0))"
    using assms(3) by (subst (asm) db) simp
  then obtain x where x: "sq = (if qs_id x = qid then x\<lparr>qs_tags := snd ?r, qs_updated_at := t\<rparr> else x)"
    unfolding update_question_staging_def set_map by (rule imageE)
  have "qs_id x = qid"
  proof (rule ccontr)
    assume "qs_id x \<noteq> qid"
    then have "sq = x" using x by simp
    then show False using assms(4) \<open>qs_id x \<noteq> qid\<close> by simp
  qed
  then have "qs_tags sq = snd ?r" using x by simp
  moreover have "tag_names (fst ?r) (snd ?r) = tag_names (tags db0) [] \<union> (set (map strip names) - {[]})"
    by (rule resolve_tags_names [OF assms(2), of "[]" t names]) simp_all
  moreover have "tags db = fst ?r" by (subst db) simp
  ultimately show ?thesis by (simp add: tag_names_def)
qed


text \<open>
  C8. On a database with distinct keys a successful sync leaves, for every approved
  staging question of the run, a published question of the run linked to it whose tags are
  the staging question's tags, whatever they were before; when the links of the run's
  published questions were distinct, every published question with that link has them.
  In particular, when the staging tags have just been set by the tag endpoint, the
  published question's tag names are the stripped non-empty names given.
\<close>

theorem sync_mirrors_tags:
  assumes ok: "sync_to_actual None now run_id db = (Inr result, db')"
    and keys: "distinct (map qs_id (question_staging db))" "distinct (map q_id (questions db))"
      "distinct (map a_id (answers db))"
    and sq: "sq \<in> set (question_staging db)" "qs_run_id sq = run_id" "qs_is_approved sq = Some True"
  shows "(\<exists>q\<in>set (questions db'). q_run_id q = run_id \<and> q_staging_id q = Some (qs_id sq) \<and>
            q_tags q = qs_tags sq) \<and>
         (distinct (links run_id (questions db)) \<longrightarrow>
            (\<forall>q\<in>set (questions db'). q_run_id q = run_id \<and> q_staging_id q = Some (qs_id sq) \<longrightarrow>
               q_tags q = qs_tags sq)) \<and>
         (\<forall>t names db0 out.
            update_question_tags t (qs_id sq) names db0 = (Inr out, db) \<longrightarrow>
            distinct (map t_id (tags db0)) \<longrightarrow>
            (\<exists>q\<in>set (questions db'). q_run_id q = run_id \<and> q_staging_id q = Some (qs_id sq) \<and>
               tag_names (tags db') (q_tags q) = set (map strip names) - {[]}))"
proof -
  have db': "db' = snd (reconcile now run_id db)" using sync_success [OF ok] by simp
  obtain qs2 n2 tbl news where pf: "pass_facts now run_id db qs2 n2 tbl news"
    using reconcile_facts [OF keys(2,3)] by blast
  have sqa: "sq \<in> set (approved_questions run_id db)" using sq by (simp add: approved_questions_def)
  from pass_designated [OF pf keys(1) sqa]
  obtain q where q: "q \<in> set (questions db')"
      "mirrors run_id (approved_questions_with_answers run_id db) sq q"
    unfolding db' by blast
  have a: "\<exists>q\<in>set (questions db'). q_run_id q = run_id \<and> q_staging_id q = Some (qs_id sq) \<and>
            q_tags q = qs_tags sq"
    using q by (auto simp: mirrors_def)
  have b: "distinct (links run_id (questions db)) \<longrightarrow>
            (\<forall>q\<in>set (questions db'). q_run_id q = run_id \<and> q_staging_id q = Some (qs_id sq) \<longrightarrow>
               q_tags q = qs_tags sq)"
  proof (intro impI ballI)
    fix q' assume u: "distinct (links run_id (questions db))"
      and q': "q' \<in> set (questions db')" "q_run_id q' = run_id \<and> q_staging_id q' = Some (qs_id sq)"
    have "distinct (links run_id (questions db'))" unfolding db' by (rule pass_links [OF pf u])
    then have "q' = q"
      using links_unique_eq [of run_id "questions db'" q' q "qs_id sq"] q' q
      by (simp add: mirrors_def)
    then show "q_tags q' = qs_tags sq" using q(2) by (simp add: mirrors_def)
  qed
  have c: "\<forall>t names db0 out.
            update_question_tags t (qs_id sq) names db0 = (Inr out, db) \<longrightarrow>
            distinct (map t_id (tags db0)) \<longrightarrow>
            (\<exists>q\<in>set (questions db'). q_run_id q = run_id \<and> q_staging_id q = Some (qs_id sq) \<and>
               tag_names (tags db') (q_tags q) = set (map strip names) - {[]})"
  proof (intro allI impI)
    fix t names db0 out
    assume u: "update_question_tags t (qs_id sq) names db0 = (Inr out, db)"
      and d: "distinct (map t_id (tags db0))"
    have "tag_names (tags db) (qs_tags sq) = set (map strip names) - {[]}"
      by (rule update_question_tags_names [OF u d sq(1)]) simp
    moreover have "tags db' = tags db" unfolding db' using reconcile_frame [of now run_id db] by simp
    ultimately show "\<exists>q\<in>set (questions db'). q_run_id q = run_id \<and> q_staging_id q = Some (qs_id sq) \<and>
               tag_names (tags db') (q_tags q) = set (map strip names) - {[]}"
      using q by (intro bexI [of _ q]) (simp_all add: mirrors_def)
  qed
  show ?thesis using a b c by blast
qed

lemmas tag_eval_defs =
  update_question_tags_def get_question_staging_def update_question_staging_def touch_run_def
  strip_def isspace_def

lemma tags_ab_eval:
  "tags_ab =
     \<lparr>runs = [demo_run\<lparr>r_last_staging_change_at := Some 2, r_updated_at := 2\<rparr>],
      question_staging =
        [\<lparr>qs_id = 1, qs_run_id = ''r'', qs_question_text = ''q'', qs_is_approved = Some True,
          qs_created_at = 1, qs_updated_at = 2, qs_tags = [1, 2]\<rparr>],
      answer_staging = [], questions = [], answers = [],
      tags = [\<lparr>t_id = 1, t_name = ''a'', t_created_at = 2\<rparr>,
              \<lparr>t_id = 2, t_name = ''b'', t_created_at = 2\<rparr>]\<rparr>"
  by (simp add: tags_ab_def approved_db_def demo_run_def tag_eval_defs sync_eval_defs)

lemma tags_ab_synced_eval:
  "tags_ab_synced =
     \<lparr>runs = [demo_run\<lparr>r_last_staging_change_at := Some 2, r_updated_at := 3, r_last_sync_at := Some 3\<rparr>],
      question_staging =
        [\<lparr>qs_id = 1, qs_run_id = ''r'', qs_question_text = ''q'', qs_is_approved = Some True,
          qs_created_at = 1, qs_updated_at = 2, qs_tags = [1, 2]\<rparr>],
      answer_staging = [],
      questions =
        [\<lparr>q_id = 1, q_run_id = ''r'', q_staging_id = Some 1, q_question_text = ''q'',
          q_is_approved = False, q_created_at = 3, q_updated_at = 3, q_tags = [1, 2]\<rparr>],
      answers = [],
      tags = [\<lparr>t_id = 1, t_name = ''a'', t_created_at = 2\<rparr>,
              \<lparr>t_id = 2, t_name = ''b'', t_created_at = 2\<rparr>]\<rparr>"
  by (simp add: tags_ab_synced_def tags_ab_eval demo_run_def sync_eval_defs)

lemma tags_bc_eval:
  "update_question_tags 4 1 ['' b'', ''c '', '' ''] tags_ab_synced =
     (Inr [\<lparr>t_id = 2, t_name = ''b'', t_created_at = 2\<rparr>,
           \<lparr>t_id = 3, t_name = ''c'', t_created_at = 4\<rparr>],
      tags_bc) \<and>
   tags_bc =
     \<lparr>runs = [demo_run\<lparr>r_last_staging_change_at := Some 4, r_updated_at := 4, r_last_sync_at := Some 3\<rparr>],
      question_staging =
        [\<lparr>qs_id = 1, qs_run_id = ''r'', qs_question_text = ''q'', qs_is_approved = Some True,
          qs_created_at = 1, qs_updated_at = 4, qs_tags = [2, 3]\<rparr>],
      answer_staging = [],
      questions =
        [\<lparr>q_id = 1, q_run_id = ''r'', q_staging_id = Some 1, q_question_text = ''q'',
          q_is_approved = False, q_created_at = 3, q_updated_at = 3, q_tags = [1, 2]\<rparr>],
      answers = [],
      tags = [\<lparr>t_id = 1, t_name = ''a'', t_created_at = 2\<rparr>,
              \<lparr>t_id = 2, t_name = ''b'', t_created_at = 2\<rparr>,
              \<lparr>t_id = 3, t_name = ''c'', t_created_at = 4\<rparr>]\<rparr>"
  by (simp add: tags_bc_def tags_ab_synced_eval demo_run_def tag_eval_defs sync_eval_defs)

lemma tags_bc_synced_eval:
  "sync_to_actual None 5 ''r'' tags_bc =
     (Inr \<lparr>message = ''Sync completed successfully'', last_sync_at = 5, questions_synced = 1\<rparr>,
      tags_bc_synced) \<and>
   questions tags_bc_synced =
        [\<lparr>q_id = 1, q_run_id = ''r'', q_staging_id = Some 1, q_question_text = ''q'',
          q_is_approved = False, q_created_at = 3, q_updated_at = 5, q_tags = [2, 3]\<rparr>] \<and>
   tags tags_bc_synced = tags tags_bc"
  by code_simp


theorem sync_mirrors_tags_witness:
  "sync_to_actual None 5 ''r'' tags_bc =
     (Inr \<lparr>message = ''Sync completed successfully'', last_sync_at = 5, questions_synced = 1\<rparr>,
      tags_bc_synced) \<and>
   update_question_tags 4 1 ['' b'', ''c '', '' ''] tags_ab_synced =
     (Inr [\<lparr>t_id = 2, t_name = ''b'', t_created_at = 2\<rparr>,
           \<lparr>t_id = 3, t_name = ''c'', t_created_at = 4\<rparr>],
      tags_bc) \<and>
   tag_names (tags tags_ab_synced) (q_tags (hd (questions tags_ab_synced))) = {''a'', ''b''} \<and>
   distinct (map qs_id (question_staging tags_bc)) \<and>
   distinct (map q_id (questions tags_bc)) \<and>
   distinct (map a_id (answers tags_bc)) \<and>
   distinct (links ''r'' (questions tags_bc)) \<and>
   distinct (map t_id (tags tags_ab_synced)) \<and>
   map q_staging_id (questions tags_bc_synced) = [Some 1] \<and>
   map q_tags (questions tags_bc_synced) = [[2, 3]] \<and>
   tag_names (tags tags_bc_synced) (q_tags (hd (questions tags_bc_synced))) = {''b'', ''c''}"
proof -
  let ?sq = "\<lparr>qs_id = 1, qs_run_id = ''r'', qs_question_text = ''q'', qs_is_approved = Some True,
          qs_created_at = 1, qs_updated_at = 4, qs_tags = [2, 3]\<rparr>"
  have sq: "?sq \<in> set (question_staging tags_bc)" "qs_run_id ?sq = ''r''"
      "qs_is_approved ?sq = Some True"
    by (simp_all add: tags_bc_eval)
  have keys: "distinct (map qs_id (question_staging tags_bc))"
      "distinct (map q_id (questions tags_bc))" "distinct (map a_id (answers tags_bc))"
    by (simp_all add: tags_bc_eval)
  have ok: "sync_to_actual None 5 ''r'' tags_bc =
     (Inr \<lparr>message = ''Sync completed successfully'', last_sync_at = 5, questions_synced = 1\<rparr>,
      tags_bc_synced)"
    using tags_bc_synced_eval by simp
  have up: "update_question_tags 4 1 ['' b'', ''c '', '' ''] tags_ab_synced =
     (Inr [\<lparr>t_id = 2, t_name = ''b'', t_created_at = 2\<rparr>,
           \<lparr>t_id = 3, t_name = ''c'', t_created_at = 4\<rparr>],
      tags_bc)"
    using tags_bc_eval by simp
  have ex: "\<exists>q\<in>set (questions tags_bc_synced). q_run_id q = ''r'' \<and> q_staging_id q = Some 1 \<and>
            q_tags q = [2, 3]"
    using sync_mirrors_tags [OF ok keys sq] by simp
  have rest: "tag_names (tags tags_ab_synced) (q_tags (hd (questions tags_ab_synced))) = {''a'', ''b''} \<and>
   distinct (map qs_id (question_staging tags_bc)) \<and>
   distinct (map q_id (questions tags_bc)) \<and>
   distinct (map a_id (answers tags_bc)) \<and>
   distinct (links ''r'' (questions tags_bc)) \<and>
   distinct (map t_id (tags tags_ab_synced)) \<and>
   map q_staging_id (questions tags_bc_synced) = [Some 1] \<and>
   map q_tags (questions tags_bc_synced) = [[2, 3]] \<and>
   tag_names (tags tags_bc_synced) (q_tags (hd (questions tags_bc_synced))) = {''b'', ''c''}"
    by code_simp
  show ?thesis using ex ok up rest by blast
qed

lemma generate_answers_loop_result:
  assumes "generate_answers_loop svc now run tbl xs (dels, news) = Inr (dels', news')"
    and "distinct (map as_id (tbl @ news))"
  shows "\<exists>add. news' = news @ add \<and>
           map as_question_id add = map qs_id (filter (regenerates tbl) xs) \<and>
           (\<forall>a\<in>set add. as_is_approved a = None \<and> as_run_id a = r_id run) \<and>
           distinct (map as_id (tbl @ news')) \<and>
           set dels' = set dels \<union>
             {as_id a |a. a \<in> set tbl \<and> (\<exists>q\<in>set xs. regenerates tbl q \<and> as_question_id a = qs_id q)}"
  using assms
proof (induction xs arbitrary: dels news)
  case Nil
  then show ?case by simp
next
  case (Cons question rest)
  let ?existing = "filter (\<lambda>a. as_question_id a = qs_id question) tbl"
  show ?case
  proof (cases "regenerates tbl question")
    case False
    then have "generate_answers_loop svc now run tbl rest (dels, news) = Inr (dels', news')"
      using Cons.prems(1) by (simp add: regenerates_def)
    from Cons.IH [OF this Cons.prems(2)] show ?thesis using False by auto
  next
    case True
    then have ne: "\<not> list_ex (\<lambda>ans. as_is_approved ans \<noteq> Some False) ?existing"
      by (simp add: regenerates_def)
    obtain answer_text where t: "llm_generate_answer svc (qs_question_text question) (r_summary run) = Inr answer_text"
      using Cons.prems(1) ne by (cases "llm_generate_answer svc (qs_question_text question) (r_summary run)") (simp_all add: Let_def)
    let ?new = "\<lparr>as_id = next_id (map as_id (tbl @ news)), as_run_id = r_id run,
                  as_question_id = qs_id question, as_answer_text = answer_text,
                  as_is_approved = None, as_created_at = now, as_updated_at = now\<rparr>"
    have step: "generate_answers_loop svc now run tbl rest (dels @ map as_id ?existing, news @ [?new])
                  = Inr (dels', news')"
      using Cons.prems(1) ne t by (simp add: Let_def)
    have d: "distinct (map as_id (tbl @ (news @ [?new])))"
      using Cons.prems(2) next_id_fresh [of "map as_id (tbl @ news)"] by simp
    from Cons.IH [OF step d] obtain add where
      a1: "news' = (news @ [?new]) @ add"
      and a2: "map as_question_id add = map qs_id (filter (regenerates tbl) rest)"
      and a3: "\<forall>a\<in>set add. as_is_approved a = None \<and> as_run_id a = r_id run"
      and a4: "distinct (map as_id (tbl @ news'))"
      and a5: "set dels' = set (dels @ map as_id ?existing) \<union>
             {as_id a |a. a \<in> set tbl \<and> (\<exists>q\<in>set rest. regenerates tbl q \<and> as_question_id a = qs_id q)}"
      by blast
    have b1: "news' = news @ (?new # add)" using a1 by simp
    have b2: "map as_question_id (?new # add) = map qs_id (filter (regenerates tbl) (question # rest))"
      using a2 True by simp
    have b3: "\<forall>a\<in>set (?new # add). as_is_approved a = None \<and> as_run_id a = r_id run"
      using a3 by simp
    have b5: "set dels' = set dels \<union>
             {as_id a |a. a \<in> set tbl \<and> (\<exists>q\<in>set (question # rest). regenerates tbl q \<and> as_question_id a = qs_id q)}"
      unfolding a5 using True by auto
    show ?thesis
      by (rule exI [of _ "?new # add"], intro conjI) (fact b1, fact b2, fact b3, fact a4, fact b5)
  qed
qed

lemma filter_unique_image:
  assumes "distinct (map f xs)" "x \<in> set xs" "map g ys = map f xs"
  shows "\<exists>y. filter (\<lambda>y. g y = f x) ys = [y]"
  using assms
proof (induction xs arbitrary: ys)
  case Nil
  then show ?case by simp
next
  case (Cons x0 xs')
  then obtain y ys' where ys: "ys = y # ys'" "g y = f x0" "map g ys' = map f xs'" by auto
  show ?case
  proof (cases "x = x0")
    case True
    have "f x0 \<notin> set (map g ys')" using Cons.prems(1) ys(3) by simp
    then have "\<And>y. y \<in> set ys' \<Longrightarrow> g y \<noteq> f x0" by (metis imageI set_map)
    then have "filter (\<lambda>y. g y = f x) ys' = []" using True by (simp add: filter_empty_conv)
    then show ?thesis using ys True by simp
  next
    case False
    then have "x \<in> set xs'" using Cons.prems(2) by simp
    moreover have "f x \<noteq> f x0" using Cons.prems(1) calculation by (metis distinct.simps(2) imageI list.simps(9) set_map)
    moreover have "distinct (map f xs')" using Cons.prems(1) by simp
    ultimately show ?thesis using Cons.IH [of ys'] ys by simp
  qed
qed

lemma regenerates_iff:
  "regenerates tbl q \<longleftrightarrow> (\<forall>a\<in>set (answers_of (qs_id q) tbl). as_is_approved a = Some False)"
  by (auto simp: regenerates_def answers_of_def list_ex_iff)

lemma generate_answers_success:
  assumes "generate_answers llm now run_id db = (Inr created, db')"
  shows "\<exists>svc run dels. llm = Some svc \<and> get_run run_id db = Some run \<and>
           generate_answers_loop svc now run (answer_staging db)
             (filter (\<lambda>q. qs_run_id q = run_id \<and> qs_is_approved q = Some True) (question_staging db))
             ([], []) = Inr (dels, created) \<and>
           answer_staging db' = filter (\<lambda>a. as_id a \<notin> set dels) (answer_staging db) @ created \<and>
           question_staging db' = question_staging db \<and> runs db' = runs db"
proof (cases llm)
  case None
  then show ?thesis using assms by (simp add: generate_answers_def)
next
  case (Some svc)
  show ?thesis
  proof (cases "get_run run_id db")
    case None
    then show ?thesis using assms Some by (simp add: generate_answers_def)
  next
    case run: (Some run)
    let ?xs = "filter (\<lambda>q. qs_run_id q = run_id \<and> qs_is_approved q = Some True) (question_staging db)"
    show ?thesis
    proof (cases "generate_answers_loop svc now run (answer_staging db) ?xs ([], [])")
      case (Inl e)
      then show ?thesis using assms Some run by (simp add: generate_answers_def Let_def split: if_splits)
    next
      case (Inr p)
      obtain dels news where p: "p = (dels, news)" by (cases p) auto
      have ne: "?xs \<noteq> []" using assms Some run by (auto simp: generate_answers_def Let_def split: if_splits)
      have r: "generate_answers llm now run_id db =
           (Inr news, db\<lparr>answer_staging := filter (\<lambda>a. as_id a \<notin> set dels) (answer_staging db) @ news\<rparr>)"
        using Some run Inr p ne by (simp add: generate_answers_def Let_def)
      have eq: "(Inr created :: http_error + answer_staging list, db') =
           (Inr news, db\<lparr>answer_staging := filter (\<lambda>a. as_id a \<notin> set dels) (answer_staging db) @ news\<rparr>)"
        by (rule trans [OF sym [OF assms] r])
      have c: "created = news" using eq by (simp only: prod.inject sum.inject)
      have "db' = db\<lparr>answer_staging := filter (\<lambda>a. as_id a \<notin> set dels) (answer_staging db) @ news\<rparr>"
        using eq by (simp only: prod.inject)
      then have f: "answer_staging db' = filter (\<lambda>a. as_id a \<notin> set dels) (answer_staging db) @ created"
          "question_staging db' = question_staging db" "runs db' = runs db"
        using c by simp_all
      show ?thesis
        using Some run Inr p c f by (intro exI [of _ svc] exI [of _ run] exI [of _ dels]) simp
    qed
  qed
qed

lemma generate_answers_failure:
  assumes "generate_answers llm now run_id db = (Inl err, db')"
  shows "db' = db"
proof (cases llm)
  case None
  then show ?thesis using assms by (simp add: generate_answers_def)
next
  case (Some svc)
  show ?thesis
  proof (cases "get_run run_id db")
    case None
    then show ?thesis using assms Some by (simp add: generate_answers_def)
  next
    case run: (Some run)
    let ?xs = "filter (\<lambda>q. qs_run_id q = run_id \<and> qs_is_approved q = Some True) (question_staging db)"
    show ?thesis
    proof (cases "?xs = []")
      case True
      then show ?thesis using assms Some run by (simp add: generate_answers_def Let_def)
    next
      case ne: False
      show ?thesis
      proof (cases "generate_answers_loop svc now run (answer_staging db) ?xs ([], [])")
        case (Inl e)
        then show ?thesis using assms Some run ne by (simp add: generate_answers_def Let_def)
      next
        case (Inr p)
        obtain dels news where p: "p = (dels, news)" by (cases p) auto
        have "generate_answers llm now run_id db =
           (Inr news, db\<lparr>answer_staging := filter (\<lambda>a. as_id a \<notin> set dels) (answer_staging db) @ news\<rparr>)"
          using Some run Inr p ne by (simp add: generate_answers_def Let_def)
        then have "fst (generate_answers llm now run_id db) = Inr news" by simp
        then show ?thesis using assms by simp
      qed
    qed
  qed
qed

lemma generate_answers_effect:
  assumes ok: "generate_answers llm now run_id db = (Inr created, db')"
    and keys: "distinct (map qs_id (question_staging db))" "distinct (map as_id (answer_staging db))"
    and q: "q \<in> set (question_staging db)" "qs_run_id q = run_id" "qs_is_approved q = Some True"
  shows "regenerates (answer_staging db) q \<longrightarrow>
           (\<exists>a. answers_of (qs_id q) (answer_staging db') = [a] \<and>
                answers_of (qs_id q) created = [a] \<and>
                as_is_approved a = None \<and> as_run_id a = run_id \<and>
                as_id a \<notin> as_id ` set (answer_staging db))"
    and "\<not> regenerates (answer_staging db) q \<longrightarrow>
           answers_of (qs_id q) (answer_staging db') = answers_of (qs_id q) (answer_staging db) \<and>
           answers_of (qs_id q) created = []"
    and "distinct (map as_id (answer_staging db'))"
    and "question_staging db' = question_staging db"
proof -
  let ?tbl = "answer_staging db"
  let ?xs = "filter (\<lambda>q. qs_run_id q = run_id \<and> qs_is_approved q = Some True) (question_staging db)"
  let ?k = "qs_id q"
  from generate_answers_success [OF ok] obtain svc run dels where
    run: "get_run run_id db = Some run"
    and loop: "generate_answers_loop svc now run ?tbl ?xs ([], []) = Inr (dels, created)"
    and as': "answer_staging db' = filter (\<lambda>a. as_id a \<notin> set dels) ?tbl @ created"
    and qs': "question_staging db' = question_staging db"
    by blast
  have rid: "r_id run = run_id" using run find_SomeD [of "\<lambda>r. r_id r = run_id" "runs db" run]
    by (simp add: get_run_def)
  have d0: "distinct (map as_id (?tbl @ []))" using keys(2) by simp
  from generate_answers_loop_result [OF loop d0] obtain add where
    c0: "created = [] @ add"
    and c1: "map as_question_id add = map qs_id (filter (regenerates ?tbl) ?xs)"
    and c2: "\<forall>a\<in>set add. as_is_approved a = None \<and> as_run_id a = r_id run"
    and c3: "distinct (map as_id (?tbl @ created))"
    and c4: "set dels = set [] \<union>
             {as_id a |a. a \<in> set ?tbl \<and> (\<exists>q\<in>set ?xs. regenerates ?tbl q \<and> as_question_id a = qs_id q)}"
    by blast
  have cr: "created = add" using c0 by simp
  have qx: "q \<in> set ?xs" using q by simp
  have dx: "distinct (map qs_id ?xs)" using keys(1) by (rule distinct_map_filter)
  have dr: "distinct (map qs_id (filter (regenerates ?tbl) ?xs))" using dx by (rule distinct_map_filter)
  have same: "\<And>q'. q' \<in> set ?xs \<Longrightarrow> qs_id q' = ?k \<Longrightarrow> q' = q"
    using distinct_map_eq [OF dx _ qx] by blast
  have deleted: "\<And>a. a \<in> set ?tbl \<Longrightarrow> as_question_id a = ?k \<Longrightarrow>
      (as_id a \<in> set dels \<longleftrightarrow> regenerates ?tbl q)"
  proof -
    fix a assume a: "a \<in> set ?tbl" "as_question_id a = ?k"
    show "as_id a \<in> set dels \<longleftrightarrow> regenerates ?tbl q"
    proof
      assume "as_id a \<in> set dels"
      then obtain b q' where b: "as_id b = as_id a" "b \<in> set ?tbl" "q' \<in> set ?xs"
          "regenerates ?tbl q'" "as_question_id b = qs_id q'"
        unfolding c4 by auto
      have "b = a" using distinct_map_eq [OF keys(2) b(2) a(1) b(1)] .
      then have "q' = q" using same b(3,5) a(2) by simp
      then show "regenerates ?tbl q" using b(4) by simp
    next
      assume "regenerates ?tbl q"
      then show "as_id a \<in> set dels" unfolding c4 using a qx by auto
    qed
  qed
  show "regenerates ?tbl q \<longrightarrow>
           (\<exists>a. answers_of ?k (answer_staging db') = [a] \<and> answers_of ?k created = [a] \<and>
                as_is_approved a = None \<and> as_run_id a = run_id \<and>
                as_id a \<notin> as_id ` set ?tbl)"
  proof
    assume rg: "regenerates ?tbl q"
    then have "q \<in> set (filter (regenerates ?tbl) ?xs)" using qx by simp
    from filter_unique_image [OF dr this c1]
    obtain a where a: "filter (\<lambda>y. as_question_id y = ?k) add = [a]" by blast
    have "a \<in> set (filter (\<lambda>y. as_question_id y = ?k) add)" unfolding a by simp
    then have mem: "a \<in> set add" by simp
    have old: "filter (\<lambda>a. as_question_id a = ?k) (filter (\<lambda>a. as_id a \<notin> set dels) ?tbl) = []"
      using deleted rg by (auto simp: filter_empty_conv)
    have 1: "answers_of ?k (answer_staging db') = [a]"
      unfolding as' answers_of_def cr filter_append old a by simp
    have 2: "answers_of ?k created = [a]" unfolding answers_of_def cr by (rule a)
    have 3: "as_is_approved a = None \<and> as_run_id a = run_id" using c2 mem rid by simp
    have 4: "as_id a \<notin> as_id ` set ?tbl" using c3 mem cr by auto
    show "\<exists>a. answers_of ?k (answer_staging db') = [a] \<and> answers_of ?k created = [a] \<and>
                as_is_approved a = None \<and> as_run_id a = run_id \<and> as_id a \<notin> as_id ` set ?tbl"
      using 1 2 3 4 by blast
  qed
  show "\<not> regenerates ?tbl q \<longrightarrow>
           answers_of ?k (answer_staging db') = answers_of ?k ?tbl \<and> answers_of ?k created = []"
  proof
    assume nr: "\<not> regenerates ?tbl q"
    have "?k \<notin> set (map qs_id (filter (regenerates ?tbl) ?xs))"
    proof
      assume "?k \<in> set (map qs_id (filter (regenerates ?tbl) ?xs))"
      then obtain q' where "q' \<in> set ?xs" "regenerates ?tbl q'" "qs_id q' = ?k" by auto
      then show False using same nr by blast
    qed
    then have "?k \<notin> set (map as_question_id add)" using c1 by simp
    then have "\<And>y. y \<in> set add \<Longrightarrow> as_question_id y \<noteq> ?k"
      unfolding set_map by (metis imageI)
    then have new: "filter (\<lambda>y. as_question_id y = ?k) add = []"
      by (simp add: filter_empty_conv)
    have old: "filter (\<lambda>a. as_question_id a = ?k) (filter (\<lambda>a. as_id a \<notin> set dels) ?tbl) =
               filter (\<lambda>a. as_question_id a = ?k) ?tbl"
      unfolding filter_filter using deleted nr by (intro filter_cong) auto
    show "answers_of ?k (answer_staging db') = answers_of ?k ?tbl \<and> answers_of ?k created = []"
      unfolding as' answers_of_def cr filter_append old new by simp
  qed
  have "distinct (map as_id (filter (\<lambda>a. as_id a \<notin> set dels) ?tbl @ created))"
    using c3 by (auto simp: distinct_map_filter)
  then show "distinct (map as_id (answer_staging db'))" unfolding as' .
  show "question_staging db' = question_staging db" by (rule qs')
qed

text \<open>
  C7. When \<^verbatim>\<open>generate_answers\<close> succeeds on a database with distinct keys, then for every
  approved staging question of the run: if all its staging answers are rejected (there may
  be none, or exactly one), they are gone afterwards and the question has exactly one
  answer, a new row pending approval, which is among the returned ones; if one of its
  answers is pending or approved, its answers are as before and none is returned for it.
  Either way a second call, whatever it returns, leaves the answers of the question as the
  first call left them.
\<close>

theorem answer_regeneration_gating:
  assumes ok: "generate_answers llm now run_id db = (Inr created, db')"
    and keys: "distinct (map qs_id (question_staging db))" "distinct (map as_id (answer_staging db))"
    and q: "q \<in> set (question_staging db)" "qs_run_id q = run_id" "qs_is_approved q = Some True"
  shows "((\<forall>a\<in>set (answers_of (qs_id q) (answer_staging db)). as_is_approved a = Some False) \<longrightarrow>
            (\<exists>a. answers_of (qs_id q) (answer_staging db') = [a] \<and>
                 answers_of (qs_id q) created = [a] \<and>
                 as_is_approved a = None \<and> as_run_id a = run_id \<and>
                 as_id a \<notin> as_id ` set (answer_staging db))) \<and>
         ((\<exists>a\<in>set (answers_of (qs_id q) (answer_staging db)). as_is_approved a \<noteq> Some False) \<longrightarrow>
            answers_of (qs_id q) (answer_staging db') = answers_of (qs_id q) (answer_staging db) \<and>
            answers_of (qs_id q) created = []) \<and>
         (\<forall>llm2 now2.
            answers_of (qs_id q) (answer_staging (snd (generate_answers llm2 now2 run_id db'))) =
            answers_of (qs_id q) (answer_staging db'))"
proof -
  note e = generate_answers_effect [OF ok keys q]
  have a: "(\<forall>a\<in>set (answers_of (qs_id q) (answer_staging db)). as_is_approved a = Some False) \<longrightarrow>
            (\<exists>a. answers_of (qs_id q) (answer_staging db') = [a] \<and>
                 answers_of (qs_id q) created = [a] \<and>
                 as_is_approved a = None \<and> as_run_id a = run_id \<and>
                 as_id a \<notin> as_id ` set (answer_staging db))"
    using e(1) unfolding regenerates_iff .
  have b: "(\<exists>a\<in>set (answers_of (qs_id q) (answer_staging db)). as_is_approved a \<noteq> Some False) \<longrightarrow>
            answers_of (qs_id q) (answer_staging db') = answers_of (qs_id q) (answer_staging db) \<and>
            answers_of (qs_id q) created = []"
    using e(2) unfolding regenerates_iff by blast
  have pending: "\<not> regenerates (answer_staging db') q"
  proof (cases "regenerates (answer_staging db) q")
    case True
    then obtain a where "answers_of (qs_id q) (answer_staging db') = [a]" "as_is_approved a = None"
      using e(1) by blast
    then show ?thesis unfolding regenerates_iff by simp
  next
    case False
    then have "answers_of (qs_id q) (answer_staging db') = answers_of (qs_id q) (answer_staging db)"
      using e(2) by blast
    then show ?thesis using False unfolding regenerates_iff by simp
  qed
  have c: "\<forall>llm2 now2.
            answers_of (qs_id q) (answer_staging (snd (generate_answers llm2 now2 run_id db'))) =
            answers_of (qs_id q) (answer_staging db')"
  proof (intro allI)
    fix llm2 now2
    obtain res db'' where r: "generate_answers llm2 now2 run_id db' = (res, db'')" by (metis surj_pair)
    have "answers_of (qs_id q) (answer_staging db'') = answers_of (qs_id q) (answer_staging db')"
    proof (cases res)
      case (Inl err)
      then have "db'' = db'" using generate_answers_failure [of llm2 now2 run_id db' err db''] r by simp
      then show ?thesis by simp
    next
      case (Inr created2)
      have k2: "distinct (map qs_id (question_staging db'))" using keys(1) e(4) by simp
      have q2: "q \<in> set (question_staging db')" using q(1) e(4) by simp
      from generate_answers_effect(2) [OF r [unfolded Inr] k2 e(3) q2 q(2,3)] pending
      show ?thesis by blast
    qed
    then show "answers_of (qs_id q) (answer_staging (snd (generate_answers llm2 now2 run_id db'))) =
            answers_of (qs_id q) (answer_staging db')"
      using r by simp
  qed
  show ?thesis by (intro conjI) (fact a, fact b, fact c)
qed

lemma regenerate_eval:
  "generate_answers (Some demo_llm) 9 ''r'' rejected_answer_db =
     (Inr [\<lparr>as_id = 2, as_run_id = ''r'', as_question_id = 1, as_answer_text = ''a'',
            as_is_approved = None, as_created_at = 9, as_updated_at = 9\<rparr>],
      regenerated_db)"
  by (simp add: generate_answers_def get_run_def rejected_answer_db_def regenerated_db_def
        demo_run_def demo_llm_def next_id_def Let_def)

lemma regenerate_again_eval:
  "generate_answers (Some demo_llm) 10 ''r'' regenerated_db = (Inr [], regenerated_db)"
  by (simp add: generate_answers_def get_run_def regenerated_db_def
        demo_run_def demo_llm_def next_id_def Let_def)

theorem answer_regeneration_gating_witness:
  "generate_answers (Some demo_llm) 9 ''r'' rejected_answer_db =
     (Inr [\<lparr>as_id = 2, as_run_id = ''r'', as_question_id = 1, as_answer_text = ''a'',
            as_is_approved = None, as_created_at = 9, as_updated_at = 9\<rparr>],
      regenerated_db) \<and>
   distinct (map qs_id (question_staging rejected_answer_db)) \<and>
   distinct (map as_id (answer_staging rejected_answer_db)) \<and>
   map as_is_approved (answers_of 1 (answer_staging rejected_answer_db)) = [Some False] \<and>
   answers_of 1 (answer_staging regenerated_db) =
     [\<lparr>as_id = 2, as_run_id = ''r'', as_question_id = 1, as_answer_text = ''a'',
       as_is_approved = None, as_created_at = 9, as_updated_at = 9\<rparr>] \<and>
   generate_answers (Some demo_llm) 10 ''r'' regenerated_db = (Inr [], regenerated_db) \<and>
   answers_of 1 (answer_staging (snd (generate_answers (Some demo_llm) 10 ''r'' regenerated_db))) =
     answers_of 1 (answer_staging regenerated_db)"
proof -
  let ?q = "\<lparr>qs_id = 1, qs_run_id = ''r'', qs_question_text = ''q'', qs_is_approved = Some True,
          qs_created_at = 1, qs_updated_at = 1, qs_tags = []\<rparr>"
  have keys: "distinct (map qs_id (question_staging rejected_answer_db))"
      "distinct (map as_id (answer_staging rejected_answer_db))"
    by (simp_all add: rejected_answer_db_def)
  have q: "?q \<in> set (question_staging rejected_answer_db)" "qs_run_id ?q = ''r''"
      "qs_is_approved ?q = Some True"
    by (simp_all add: rejected_answer_db_def)
  have "answers_of 1 (answer_staging (snd (generate_answers (Some demo_llm) 10 ''r'' regenerated_db))) =
     answers_of 1 (answer_staging regenerated_db)"
    using answer_regeneration_gating [OF regenerate_eval keys q] by simp
  moreover have "map as_is_approved (answers_of 1 (answer_staging rejected_answer_db)) = [Some False]"
      "answers_of 1 (answer_staging regenerated_db) =
     [\<lparr>as_id = 2, as_run_id = ''r'', as_question_id = 1, as_answer_text = ''a'',
       as_is_approved = None, as_created_at = 9, as_updated_at = 9\<rparr>]"
    by (simp_all add: answers_of_def rejected_answer_db_def regenerated_db_def)
  ultimately show ?thesis using regenerate_eval regenerate_again_eval keys by simp
qed

text \<open>rows after the pass, seen from the state after the question loop\<close>

lemma pass_row:
  assumes pf: "pass_facts now r db qs2 n2 tbl news"
    and q: "q \<in> set (questions (snd (reconcile now r db)))"
  shows "\<exists>q2\<in>set qs2. ident q2 = ident q \<and>
           (q = q2 \<or> q = q2\<lparr>q_is_approved := False, q_updated_at := now\<rparr>)"
proof -
  obtain q2 where q2: "q2 \<in> set qs2"
      "q = (if stale r (approved_staging_question_ids r db) (approved_questions_with_answers r db) q2
            then q2\<lparr>q_is_approved := False, q_updated_at := now\<rparr> else q2)"
    using q unfolding pass_questions(1) [OF pf] set_map by (rule imageE)
  have "ident q2 = ident q" unfolding q2(2) by (simp add: ident_def)
  moreover have "q = q2 \<or> q = q2\<lparr>q_is_approved := False, q_updated_at := now\<rparr>"
    unfolding q2(2) by simp
  ultimately show ?thesis using q2(1) by blast
qed

lemma deref_link:
  assumes d: "distinct (map q_id qs)"
    and "deref (staging_to_actual_question r qs) qs s = Some actual_q"
  shows "actual_q \<in> set qs \<and> q_run_id actual_q = r \<and> q_staging_id actual_q = Some s"
proof -
  from assms(2) obtain k where k: "staging_to_actual_question r qs s = Some k"
      "get_question k qs = Some actual_q"
    by (cases "staging_to_actual_question r qs s") (simp_all add: deref_def)
  from index_SomeD [OF k(1)] obtain q where q: "q \<in> set qs" "q_id q = k" "q_run_id q = r"
      "q_staging_id q = Some s" by blast
  have a: "actual_q \<in> set qs" "q_id actual_q = k" using get_question_SomeD [OF k(2)] by auto
  have "actual_q = q" using distinct_map_eq [OF d a(1) q(1)] a(2) q(2) by simp
  then show ?thesis using q by simp
qed

lemma update_question_approval_success:
  assumes "update_question_approval now qid b db = (Inr sq', db1)"
  shows "\<exists>question. get_question_staging qid db = Some question \<and>
           qs_run_id sq' = qs_run_id question \<and>
           question_staging db1 =
             update_question_staging qid (\<lambda>q. q\<lparr>qs_is_approved := Some b, qs_updated_at := now\<rparr>)
               (question_staging db) \<and>
           answer_staging db1 =
             (if b = False then filter (\<lambda>a. as_question_id a \<noteq> qid) (answer_staging db)
              else answer_staging db) \<and>
           runs db1 = touch_run now (qs_run_id question) (runs db) \<and>
           questions db1 = questions db \<and> answers db1 = answers db \<and> tags db1 = tags db"
proof (cases "get_question_staging qid db")
  case None
  then show ?thesis using assms by (simp add: update_question_approval_def)
next
  case (Some question)
  have "update_question_approval now qid b db =
      (Inr (question\<lparr>qs_is_approved := Some b, qs_updated_at := now\<rparr>),
       db\<lparr>question_staging :=
            update_question_staging qid (\<lambda>q. q\<lparr>qs_is_approved := Some b, qs_updated_at := now\<rparr>)
              (question_staging db),
          answer_staging :=
            (if b = False then filter (\<lambda>a. as_question_id a \<noteq> qid) (answer_staging db)
             else answer_staging db),
          runs := touch_run now (qs_run_id question) (runs db)\<rparr>)"
    using Some by (simp add: update_question_approval_def Let_def)
  from trans [OF sym [OF assms] this]
  have 1: "sq' = question\<lparr>qs_is_approved := Some b, qs_updated_at := now\<rparr>"
    and 2: "db1 = db\<lparr>question_staging :=
            update_question_staging qid (\<lambda>q. q\<lparr>qs_is_approved := Some b, qs_updated_at := now\<rparr>)
              (question_staging db),
          answer_staging :=
            (if b = False then filter (\<lambda>a. as_question_id a \<noteq> qid) (answer_staging db)
             else answer_staging db),
          runs := touch_run now (qs_run_id question) (runs db)\<rparr>"
    by (simp_all only: prod.inject sum.inject)
  have "qs_run_id sq' = qs_run_id question" by (subst 1) simp
  moreover have "question_staging db1 =
             update_question_staging qid (\<lambda>q. q\<lparr>qs_is_approved := Some b, qs_updated_at := now\<rparr>)
               (question_staging db)"
      "answer_staging db1 =
             (if b = False then filter (\<lambda>a. as_question_id a \<noteq> qid) (answer_staging db)
              else answer_staging db)"
      "runs db1 = touch_run now (qs_run_id question) (runs db)"
      "questions db1 = questions db" "answers db1 = answers db" "tags db1 = tags db"
    by (subst 2, simp)+
  ultimately show ?thesis using Some by blast
qed

lemma upsert_question_nonzero:
  assumes "0 \<notin> set (map q_id (fst st))"
  shows "0 \<notin> set (map q_id (fst (upsert_question now r W sq st)))"
proof -
  obtain qs m n where st: "st = (qs, m, n)" by (metis prod_cases3)
  have u: "map q_id (update_question k f qs) = map q_id qs" if "\<And>q. ident (f q) = ident q" for k f
    by (rule ident_eq_q_id [OF ident_update_question [OF that]])
  show ?thesis
    using assms unfolding st upsert_question_def Let_def
    by (cases "deref m qs (qs_id sq)") (simp_all add: u ident_def next_id_pos)
qed

lemma sync_questions_nonzero:
  "0 \<notin> set (map q_id (fst st)) \<Longrightarrow>
   0 \<notin> set (map q_id (fst (fold (upsert_question now r W) xs st)))"
proof (induction xs arbitrary: st)
  case Nil
  then show ?case by simp
next
  case (Cons sq xs)
  have "0 \<notin> set (map q_id (fst (upsert_question now r W sq st)))"
    by (rule upsert_question_nonzero [OF Cons.prems])
  from Cons.IH [OF this] show ?case by simp
qed

lemma pass_no_answer_for_unapproved:
  assumes pf: "pass_facts now r db qs2 n2 tbl news"
    and q: "q \<in> set (questions (snd (reconcile now r db)))" "q_staging_id q = Some s" "s \<noteq> 0"
      "s \<notin> approved_staging_question_ids r db" "q_id q \<noteq> 0"
    and a: "a \<in> set (answers (snd (reconcile now r db)))" "a_run_id a = r"
  shows "a_question_id a \<noteq> q_id q"
proof
  assume k: "a_question_id a = q_id q"
  let ?A = "approved_staging_question_ids r db"
  let ?Aa = "approved_staging_answer_ids r db"
  let ?m = "staging_to_actual_question r qs2"
  from pass_row [OF pf q(1)] obtain q2 where q2: "q2 \<in> set qs2" "ident q2 = ident q" by blast
  have id2: "q_id q2 = q_id q" "q_staging_id q2 = Some s"
    using q2(2) q(2) by (simp_all add: ident_def)
  have d: "distinct (map q_id qs2)" by (rule pass_factsD(1) [OF pf])
  have g2: "get_question (q_id q) qs2 = Some q2"
    using get_question_distinct [OF d q2(1)] id2(1) by simp
  have "a \<in> set (filter (\<lambda>a. \<not> (a_run_id a = r \<and> should_delete ?A ?Aa qs2 a)) tbl) \<or> a \<in> set news"
    using a(1) unfolding pass_questions(5) [OF pf] by simp
  then show False
  proof
    assume "a \<in> set (filter (\<lambda>a. \<not> (a_run_id a = r \<and> should_delete ?A ?Aa qs2 a)) tbl)"
    then have "\<not> should_delete ?A ?Aa qs2 a" using a(2) by simp
    then have "\<not> owner_unapproved ?A qs2 a" by (simp add: should_delete_eq)
    moreover have "owner_unapproved ?A qs2 a"
      using k g2 id2(2) q(3,4,5) by (simp add: owner_unapproved_def)
    ultimately show False by simp
  next
    assume "a \<in> set news"
    with pass_factsD(9) [OF pf] obtain sa where sa: "added_for r ?A ?m qs2 sa a" by blast
    then obtain actual_q where aq: "deref ?m qs2 (as_question_id sa) = Some actual_q"
        "a_question_id a = q_id actual_q" and ap: "as_question_id sa \<in> ?A"
      by (cases "deref ?m qs2 (as_question_id sa)") (simp_all add: added_for_def)
    from deref_link [OF d aq(1)] have l: "actual_q \<in> set qs2"
        "q_staging_id actual_q = Some (as_question_id sa)" by simp_all
    have "q_id actual_q = q_id q2" using aq(2) k id2(1) by simp
    then have "actual_q = q2" using distinct_map_eq [OF d l(1) q2(1)] by simp
    then have "s = as_question_id sa" using l(2) id2(2) by simp
    then show False using ap q(4) by simp
  qed
qed

lemma rejected_not_approved:
  assumes "update_question_approval now qid False db = (Inr sq', db1)"
  shows "qid \<notin> approved_staging_question_ids r db1"
proof -
  from update_question_approval_success [OF assms]
  have st: "question_staging db1 =
      update_question_staging qid (\<lambda>q. q\<lparr>qs_is_approved := Some False, qs_updated_at := now\<rparr>)
        (question_staging db)" by blast
  have "qs_is_approved x \<noteq> Some True"
    if "x \<in> set (question_staging db1)" "qs_id x = qid" for x
  proof -
    from that(1) obtain y where y: "y \<in> set (question_staging db)"
        "x = (if qs_id y = qid then y\<lparr>qs_is_approved := Some False, qs_updated_at := now\<rparr> else y)"
      unfolding st update_question_staging_def set_map by (rule imageE)
    show ?thesis
    proof (cases "qs_id y = qid")
      case True
      then show ?thesis using y(2) by simp
    next
      case False
      then show ?thesis using y(2) that(2) by simp
    qed
  qed
  then show ?thesis
    unfolding approved_staging_question_ids_def approved_questions_def by auto
qed

text \<open>
  C4. Rejecting a staging question deletes all of its staging answers. When the run is
  then synced, every published question of the run derived from the rejected staging
  question has its flag cleared, and no published answer of the run belongs to it; the
  staging question still has no staging answer. The primary keys are distinct and not
  zero, as SQLite assigns them.
\<close>

theorem rejection_cascade:
  assumes rej: "update_question_approval t1 question_id False db = (Inr sq', db1)"
    and sync: "sync_to_actual None t2 (qs_run_id sq') db1 = (Inr result, db2)"
    and keys: "distinct (map q_id (questions db))" "distinct (map a_id (answers db))"
      "0 \<notin> set (map q_id (questions db))" "question_id \<noteq> 0"
  shows "answers_of question_id (answer_staging db1) = [] \<and>
         qs_is_approved sq' = Some False \<and>
         answers_of question_id (answer_staging db2) = [] \<and>
         (\<forall>q\<in>set (questions db2).
            q_run_id q = qs_run_id sq' \<longrightarrow> q_staging_id q = Some question_id \<longrightarrow>
            \<not> q_is_approved q \<and>
            (\<forall>a\<in>set (answers db2). a_run_id a = qs_run_id sq' \<longrightarrow> a_question_id a \<noteq> q_id q))"
proof -
  let ?r = "qs_run_id sq'"
  from update_question_approval_success [OF rej]
  obtain question where gq: "get_question_staging question_id db = Some question"
    and as1: "answer_staging db1 = filter (\<lambda>a. as_question_id a \<noteq> question_id) (answer_staging db)"
    and q1: "questions db1 = questions db" and a1: "answers db1 = answers db"
    by auto
  have sq': "sq' = question\<lparr>qs_is_approved := Some False, qs_updated_at := t1\<rparr>"
    using rej gq by (simp add: update_question_approval_def Let_def)
  have c1: "answers_of question_id (answer_staging db1) = []"
    unfolding as1 answers_of_def by (simp add: filter_empty_conv)
  have c2: "qs_is_approved sq' = Some False" unfolding sq' by simp
  have db2: "db2 = snd (reconcile t2 ?r db1)"
    using sync_success [OF sync] by simp
  have dq: "distinct (map q_id (questions db1))" and da: "distinct (map a_id (answers db1))"
    using keys q1 a1 by simp_all
  from reconcile_facts [OF dq da, of t2 ?r]
  obtain qs2 n2 tbl news where pf: "pass_facts t2 ?r db1 qs2 n2 tbl news" by blast
  have c3: "answers_of question_id (answer_staging db2) = []"
    unfolding db2 pass_questions(7) [OF pf] by (rule c1)
  have na: "question_id \<notin> approved_staging_question_ids ?r db1"
    by (rule rejected_not_approved [OF rej])
  have nz: "q_id q \<noteq> 0" if "q \<in> set (questions db2)" for q
  proof -
    from pass_row [OF pf that [unfolded db2]] obtain q2 where q2: "q2 \<in> set qs2" "ident q2 = ident q"
      by blast
    have "0 \<notin> set (map q_id qs2)"
      using sync_questions_nonzero [of "(questions db1, staging_to_actual_question ?r (questions db1), 0)"
          t2 ?r "approved_questions_with_answers ?r db1" "approved_questions ?r db1"]
        keys(3) q1 pass_factsD(14) [OF pf] by simp
    then have "q_id q2 \<noteq> 0" using q2(1) by force
    then show ?thesis using q2(2) by (simp add: ident_def)
  qed
  have c4: "\<forall>q\<in>set (questions db2).
            q_run_id q = ?r \<longrightarrow> q_staging_id q = Some question_id \<longrightarrow>
            \<not> q_is_approved q \<and>
            (\<forall>a\<in>set (answers db2). a_run_id a = ?r \<longrightarrow> a_question_id a \<noteq> q_id q)"
  proof (intro ballI impI conjI)
    fix q
    assume q: "q \<in> set (questions db2)" "q_run_id q = ?r" "q_staging_id q = Some question_id"
    show "\<not> q_is_approved q"
    proof
      assume "q_is_approved q"
      from pass_flag [OF pf q(1) [unfolded db2] q(2,3) keys(4) this]
      have "question_id \<in> approved_questions_with_answers ?r db1" .
      then show False using na with_answers_subset by blast
    qed
    fix a
    assume a: "a \<in> set (answers db2)" "a_run_id a = ?r"
    show "a_question_id a \<noteq> q_id q"
      by (rule pass_no_answer_for_unapproved [OF pf q(1) [unfolded db2] q(3) keys(4) na nz [OF q(1)]
            a(1) [unfolded db2] a(2)])
  qed
  show ?thesis using c1 c2 c3 c4 by blast
qed

lemma reject_eval:
  "update_question_approval 5 1 False published_db =
     (Inr \<lparr>qs_id = 1, qs_run_id = ''r'', qs_question_text = ''q'', qs_is_approved = Some False,
            qs_created_at = 1, qs_updated_at = 5, qs_tags = []\<rparr>,
      rejected_db)"
  by (simp add: update_question_approval_def get_question_staging_def update_question_staging_def
        touch_run_def update_run_def published_db_def rejected_db_def demo_run_def Let_def)

lemma reject_sync_eval:
  "sync_to_actual None 9 ''r'' rejected_db =
     (Inr \<lparr>message = ''Sync completed successfully'', last_sync_at = 9, questions_synced = 1\<rparr>,
      rejected_db_synced)"
  by (simp add: sync_eval_defs rejected_db_def rejected_db_synced_def demo_run_def)

theorem rejection_cascade_witness:
  "update_question_approval 5 1 False published_db =
     (Inr \<lparr>qs_id = 1, qs_run_id = ''r'', qs_question_text = ''q'', qs_is_approved = Some False,
            qs_created_at = 1, qs_updated_at = 5, qs_tags = []\<rparr>,
      rejected_db) \<and>
   sync_to_actual None 9 ''r'' rejected_db =
     (Inr \<lparr>message = ''Sync completed successfully'', last_sync_at = 9, questions_synced = 1\<rparr>,
      rejected_db_synced) \<and>
   distinct (map q_id (questions published_db)) \<and>
   distinct (map a_id (answers published_db)) \<and>
   0 \<notin> set (map q_id (questions published_db)) \<and>
   map as_id (answers_of 1 (answer_staging published_db)) = [1] \<and>
   map q_is_approved (questions published_db) = [True] \<and>
   map a_question_id (answers published_db) = [1] \<and>
   answers_of 1 (answer_staging rejected_db) = [] \<and>
   answers_of 1 (answer_staging rejected_db_synced) = [] \<and>
   map ident (questions rejected_db_synced) = [(1, ''r'', Some 1)] \<and>
   map q_is_approved (questions rejected_db_synced) = [False] \<and>
   answers rejected_db_synced = []"
proof -
  let ?sq = "\<lparr>qs_id = 1, qs_run_id = ''r'', qs_question_text = ''q'', qs_is_approved = Some False,
            qs_created_at = 1, qs_updated_at = 5, qs_tags = []\<rparr>"
  have s: "sync_to_actual None 9 (qs_run_id ?sq) rejected_db =
     (Inr \<lparr>message = ''Sync completed successfully'', last_sync_at = 9, questions_synced = 1\<rparr>,
      rejected_db_synced)"
    using reject_sync_eval by simp
  have keys: "distinct (map q_id (questions published_db))"
      "distinct (map a_id (answers published_db))"
      "0 \<notin> set (map q_id (questions published_db))" "(1::nat) \<noteq> 0"
    by (simp_all add: published_db_def)
  have "answers_of 1 (answer_staging rejected_db) = [] \<and>
        answers_of 1 (answer_staging rejected_db_synced) = []"
    using rejection_cascade [OF reject_eval s keys] by simp
  moreover have "map as_id (answers_of 1 (answer_staging published_db)) = [1]"
      "map q_is_approved (questions published_db) = [True]"
      "map a_question_id (answers published_db) = [1]"
      "map ident (questions rejected_db_synced) = [(1, ''r'', Some 1)]"
      "map q_is_approved (questions rejected_db_synced) = [False]"
      "answers rejected_db_synced = []"
    by (simp_all add: answers_of_def published_db_def rejected_db_synced_def ident_def)
  ultimately show ?thesis using reject_eval reject_sync_eval keys by simp
qed












end
